theory Spec2Isabelle
  imports Complex_Main "HOL-Library.Multiset"
begin

section \<open>Python values\<close>

text \<open>
  A Python \<open>str\<close> is a sequence of Unicode code points, not of bytes: \<open>for ch in s\<close>
  visits code points and \<open>unicodedata.east_asian_width\<close> classifies code points.
  Strings are therefore lists of code points; \<open>u\<close> turns an ASCII literal into one.
\<close>

type_synonym codepoint = nat
type_synonym ustr = "codepoint list"

definition u :: "string \<Rightarrow> ustr" where
  "u s = map of_char s"

text \<open>
  A Python \<open>float\<close> is an IEEE double. The program computes nothing with floats: it
  compares a rating with two bounds, and the engine asks whether a real is a whole
  number. Both are exact, so a finite double is represented by its rational value (which
  does not tell \<open>-0.0\<close> from \<open>0.0\<close>; they compare equal). The three special values are
  kept apart because every ordered comparison with NaN is false.
\<close>

datatype pyfloat = Fin rat | PosInf | NegInf | NaN

fun float_le :: "pyfloat \<Rightarrow> pyfloat \<Rightarrow> bool" where
  "float_le NaN _ = False"
| "float_le _ NaN = False"
| "float_le NegInf _ = True"
| "float_le _ PosInf = True"
| "float_le (Fin a) (Fin b) = (a \<le> b)"
| "float_le (Fin a) NegInf = False"
| "float_le PosInf (Fin b) = False"
| "float_le PosInf NegInf = False"

text \<open>The values \<open>json.load\<close> can produce and the values bound to SQL parameters.\<close>

datatype pyval =
    PNone
  | PBool bool
  | PInt int
  | PFloat pyfloat
  | PStr ustr
  | PList "pyval list"
  | PDict "(ustr \<times> pyval) list"

section \<open>The relational store\<close>

text \<open>
  The storage classes of SQLite that this program can reach (it never binds \<open>bytes\<close>,
  so there are no blobs).
\<close>

datatype sqlval = SNull | SInt int | SReal pyfloat | SText ustr

text \<open>
  The exceptions that the handlers of the program tell apart. \<open>UnicodeEncodeError\<close>,
  \<open>UnicodeDecodeError\<close> and \<open>JSONDecodeError\<close> are subclasses of \<open>ValueError\<close>;
  \<open>IntegrityError\<close>,
  \<open>ProgrammingError\<close> and \<open>OperationalError\<close> are subclasses of
  \<open>sqlite3.DatabaseError\<close>.
\<close>

datatype exc =
    ValueError | UnicodeEncodeError | UnicodeDecodeError | JSONDecodeError
  | OverflowError | KeyError | TypeError
  | FileNotFoundError | IsADirectoryError
  | IntegrityError | ProgrammingError | OperationalError

definition is_ValueError :: "exc \<Rightarrow> bool" where
  "is_ValueError e =
     (e = ValueError \<or> e = UnicodeEncodeError \<or> e = UnicodeDecodeError \<or> e = JSONDecodeError)"

definition is_DatabaseError :: "exc \<Rightarrow> bool" where
  "is_DatabaseError e = (e = IntegrityError \<or> e = ProgrammingError \<or> e = OperationalError)"

text \<open>
  What the Python runtime and the SQL engine compute on text and floating-point numbers
  is not part of the program; it is collected in one record that every operation takes:
  \<^item> \<open>py_int\<close>, \<open>py_float\<close>: \<open>int(s)\<close> and \<open>float(s)\<close>, \<open>None\<close> for \<open>ValueError\<close>;
  \<^item> \<open>float_repr\<close>: \<open>repr\<close> of a finite float, as \<open>json.dump\<close> writes it;
  \<^item> \<open>json_loads\<close>: the JSON parser, with the exception it raises on a text it refuses;
  \<^item> \<open>sql_numeric\<close>: the engine's reading of a text as a number when a column with
    numeric affinity receives text, \<open>None\<close> if the text does not look like a number;
  \<^item> \<open>sql_real_text\<close>: the engine's rendering of a REAL stored in a TEXT column;
  \<^item> \<open>partial_write\<close>: the bytes that have reached a file when \<open>write\<close> raises on
    a character that does not encode (they depend on the buffering).
\<close>

record runtime =
  py_int :: "ustr \<Rightarrow> int option"
  py_float :: "ustr \<Rightarrow> pyfloat option"
  float_repr :: "rat \<Rightarrow> string"
  json_loads :: "ustr \<Rightarrow> exc + pyval"
  sql_numeric :: "ustr \<Rightarrow> (int + pyfloat) option"
  sql_real_text :: "pyfloat \<Rightarrow> string"
  partial_write :: "ustr \<Rightarrow> nat list"

subsection \<open>Text helpers\<close>

text \<open>\<open>str.strip()\<close> removes the characters for which \<open>str.isspace\<close> holds.\<close>

definition isspace :: "codepoint \<Rightarrow> bool" where
  "isspace c =
     ((0x09 \<le> c \<and> c \<le> 0x0D) \<or> (0x1C \<le> c \<and> c \<le> 0x20) \<or> c = 0x85 \<or> c = 0xA0
      \<or> c = 0x1680 \<or> (0x2000 \<le> c \<and> c \<le> 0x200A) \<or> c = 0x2028 \<or> c = 0x2029
      \<or> c = 0x202F \<or> c = 0x205F \<or> c = 0x3000)"

definition strip :: "ustr \<Rightarrow> ustr" where
  "strip s = rev (dropWhile isspace (rev (dropWhile isspace s)))"

text \<open>
  \<open>input(...).lower() == 'y'\<close>: the only code points whose lower case is \<open>y\<close> are
  \<open>y\<close> and \<open>Y\<close>, and the answer is not stripped.
\<close>

definition lower_is_y :: "ustr \<Rightarrow> bool" where
  "lower_is_y s = (s = u ''y'' \<or> s = u ''Y'')"

text \<open>
  A string can be handed to the engine only if it encodes to UTF-8: a lone surrogate
  raises \<open>UnicodeEncodeError\<close>.
\<close>

definition scalar_value :: "codepoint \<Rightarrow> bool" where
  "scalar_value c = (c < 0xD800 \<or> (0xDFFF < c \<and> c < 0x110000))"

definition encodable :: "ustr \<Rightarrow> bool" where
  "encodable s = list_all scalar_value s"

definition utf8_length :: "ustr \<Rightarrow> nat" where
  "utf8_length s =
     sum_list (map (\<lambda>c. if c < 0x80 then 1 else if c < 0x800 then 2
                          else if c < 0x10000 then 3 else 4) s)"

fun digits :: "nat \<Rightarrow> nat \<Rightarrow> string" where
  "digits 0 n = []"
| "digits (Suc k) n =
     (if n < 10 then [char_of (48 + n)]
      else digits k (n div 10) @ [char_of (48 + n mod 10)])"

definition decimal :: "int \<Rightarrow> string" where
  "decimal i = (if i < 0 then ''-'' @ digits (Suc (nat (- i))) (nat (- i))
                else digits (Suc (nat i)) (nat i))"

subsection \<open>The LIKE operator\<close>

text \<open>
  SQLite's \<open>LIKE\<close> without an \<open>ESCAPE\<close> clause: \<open>%\<close> (37) matches any run of
  characters, \<open>_\<close> (95) matches any one character, every other character matches itself,
  where the ASCII letters match regardless of case (the engine's default; the program
  never sets \<open>case_sensitive_like\<close>). The engine compares C strings, so both operands
  end at their first NUL, and it refuses a pattern of more than 50000 bytes. It takes
  the characters of both operands with its UTF-8 reader, which returns U+FFFD for the
  two noncharacters U+FFFE and U+FFFF (and for malformed bytes, which a Python string
  never encodes to); so these three code points match one another.
\<close>

definition ascii_lower :: "codepoint \<Rightarrow> codepoint" where
  "ascii_lower c = (if 65 \<le> c \<and> c \<le> 90 then c + 32 else c)"

fun like :: "ustr \<Rightarrow> ustr \<Rightarrow> bool" where
  "like [] s = (s = [])"
| "like (c # p) [] = (c = 37 \<and> like p [])"
| "like (c # p) (d # s) =
     (if c = 37 then like p (d # s) \<or> like (c # p) s
      else (c = 95 \<or> ascii_lower c = ascii_lower d) \<and> like p s)"

definition c_str :: "ustr \<Rightarrow> ustr" where
  "c_str s = takeWhile (\<lambda>c. c \<noteq> 0) s"

definition utf8_read :: "codepoint \<Rightarrow> codepoint" where
  "utf8_read c = (if c = 0xFFFE \<or> c = 0xFFFF then 0xFFFD else c)"

definition sql_text :: "ustr \<Rightarrow> ustr" where
  "sql_text s = map utf8_read (c_str s)"

definition sql_like :: "ustr \<Rightarrow> ustr \<Rightarrow> bool" where
  "sql_like pattern s = like (sql_text pattern) (sql_text s)"

definition SQLITE_MAX_LIKE_PATTERN_LENGTH :: nat where
  "SQLITE_MAX_LIKE_PATTERN_LENGTH = 50000"

subsection \<open>Schema\<close>

text \<open>
  \<^verbatim>\<open>
  CREATE TABLE IF NOT EXISTS movies (
      id INTEGER PRIMARY KEY AUTOINCREMENT,
      title TEXT NOT NULL,
      director TEXT NOT NULL,
      genre TEXT NOT NULL,
      year INTEGER NOT NULL,
      rating REAL CHECK (rating >= 1.0 AND rating <= 10.0)
  )
  \<close>
  A TEXT column that is NOT NULL holds text only, so the three text columns are strings.
  SQLite's columns are not typed beyond their affinity: \<open>year\<close> can hold an integer, a
  real or a text, and \<open>rating\<close>, which has no NOT NULL, can hold NULL.
  The table is kept in rowid order, the order in which a full scan returns it;
  \<open>sqlite_sequence\<close> is the counter that AUTOINCREMENT keeps for the table.
\<close>

record movie =
  movie_id :: int
  title :: ustr
  director :: ustr
  genre :: ustr
  year :: sqlval
  rating :: sqlval

record db =
  movies :: "movie list"
  sqlite_sequence :: int

definition empty_db :: db where
  "empty_db = \<lparr>movies = [], sqlite_sequence = 0\<rparr>"

definition int64 :: "int \<Rightarrow> bool" where
  "int64 i = (- (2 ^ 63) \<le> i \<and> i \<le> 2 ^ 63 - 1)"

text \<open>Binding a Python value to a \<open>?\<close> parameter.\<close>

fun bind_param :: "pyval \<Rightarrow> exc + sqlval" where
  "bind_param PNone = Inr SNull"
| "bind_param (PBool b) = Inr (SInt (if b then 1 else 0))"
| "bind_param (PInt i) = (if int64 i then Inr (SInt i) else Inl OverflowError)"
| "bind_param (PFloat f) = (if f = NaN then Inr SNull else Inr (SReal f))"
| "bind_param (PStr s) = (if encodable s then Inr (SText s) else Inl UnicodeEncodeError)"
| "bind_param (PList xs) = Inl ProgrammingError"
| "bind_param (PDict kvs) = Inl ProgrammingError"

fun bind_params :: "pyval list \<Rightarrow> exc + sqlval list" where
  "bind_params [] = Inr []"
| "bind_params (p # ps) =
     (case bind_param p of
        Inl e \<Rightarrow> Inl e
      | Inr v \<Rightarrow> (case bind_params ps of Inl e \<Rightarrow> Inl e | Inr vs \<Rightarrow> Inr (v # vs)))"


text \<open>
  Column affinity. TEXT turns numbers into text. INTEGER turns a text that looks like a
  number into that number, and a real without fractional part that fits 64 bits into an
  integer. REAL does the same and then forces integers into reals; the conversion is
  exact up to \<open>2^53\<close> and monotone beyond, and only the integers from 1 to 10 pass the
  CHECK constraint of the one REAL column, so it is taken as exact.
\<close>

definition real_to_integer :: "pyfloat \<Rightarrow> sqlval" where
  "real_to_integer f =
     (case f of
        Fin q \<Rightarrow> (if q = of_int \<lfloor>q\<rfloor> \<and> - (2 ^ 63) < \<lfloor>q\<rfloor> \<and> \<lfloor>q\<rfloor> < 2 ^ 63 - 1
                  then SInt \<lfloor>q\<rfloor> else SReal f)
      | _ \<Rightarrow> SReal f)"

fun text_affinity :: "runtime \<Rightarrow> sqlval \<Rightarrow> sqlval" where
  "text_affinity R (SInt i) = SText (u (decimal i))"
| "text_affinity R (SReal f) = SText (u (sql_real_text R f))"
| "text_affinity R v = v"

fun integer_affinity :: "runtime \<Rightarrow> sqlval \<Rightarrow> sqlval" where
  "integer_affinity R (SText s) =
     (case sql_numeric R s of
        None \<Rightarrow> SText s
      | Some (Inl i) \<Rightarrow> SInt i
      | Some (Inr f) \<Rightarrow> real_to_integer f)"
| "integer_affinity R (SReal f) = real_to_integer f"
| "integer_affinity R v = v"

fun real_affinity :: "runtime \<Rightarrow> sqlval \<Rightarrow> sqlval" where
  "real_affinity R (SText s) =
     (case sql_numeric R s of
        None \<Rightarrow> SText s
      | Some (Inl i) \<Rightarrow> SReal (Fin (of_int i))
      | Some (Inr f) \<Rightarrow> SReal f)"
| "real_affinity R (SInt i) = SReal (Fin (of_int i))"
| "real_affinity R v = v"

text \<open>
  \<open>CHECK (rating >= 1.0 AND rating <= 10.0)\<close> rejects a row only if the expression is
  false: it is NULL, hence passes, for a NULL rating. A text is greater than every
  number, so it fails the second comparison.
\<close>

fun check_rating :: "sqlval \<Rightarrow> bool" where
  "check_rating SNull = True"
| "check_rating (SInt i) = (1 \<le> i \<and> i \<le> 10)"
| "check_rating (SReal f) = (float_le (Fin 1) f \<and> float_le f (Fin 10))"
| "check_rating (SText s) = False"

fun store_text :: "runtime \<Rightarrow> sqlval \<Rightarrow> exc + ustr" where
  "store_text R v =
     (case text_affinity R v of SText s \<Rightarrow> Inr s | _ \<Rightarrow> Inl IntegrityError)"

definition store_year :: "runtime \<Rightarrow> sqlval \<Rightarrow> exc + sqlval" where
  "store_year R v =
     (let y = integer_affinity R v in if y = SNull then Inl IntegrityError else Inr y)"

definition store_rating :: "runtime \<Rightarrow> sqlval \<Rightarrow> exc + sqlval" where
  "store_rating R v =
     (let r = real_affinity R v in if check_rating r then Inr r else Inl IntegrityError)"

subsection \<open>Statements\<close>

text \<open>
  \<open>INSERT INTO movies (title, director, genre, year, rating) VALUES (?, ?, ?, ?, ?)\<close>
  on bound values. AUTOINCREMENT gives the new row an id one above the largest id the
  table ever held, and fails once the largest 64-bit integer has been used.
\<close>

definition next_id :: "db \<Rightarrow> int" where
  "next_id d = fold max (map movie_id (movies d)) (sqlite_sequence d) + 1"

definition sql_insert :: "runtime \<Rightarrow> db \<Rightarrow> sqlval list \<Rightarrow> exc + db" where
  "sql_insert R d vs =
     (case vs of
        [vt, vd, vg, vy, vr] \<Rightarrow>
          (case store_text R vt of Inl e \<Rightarrow> Inl e | Inr t \<Rightarrow>
           case store_text R vd of Inl e \<Rightarrow> Inl e | Inr dr \<Rightarrow>
           case store_text R vg of Inl e \<Rightarrow> Inl e | Inr g \<Rightarrow>
           case store_year R vy of Inl e \<Rightarrow> Inl e | Inr y \<Rightarrow>
           case store_rating R vr of Inl e \<Rightarrow> Inl e | Inr r \<Rightarrow>
             if int64 (next_id d)
             then Inr \<lparr>movies = movies d @
                         [\<lparr>movie_id = next_id d, title = t, director = dr, genre = g,
                           year = y, rating = r\<rparr>],
                       sqlite_sequence = next_id d\<rparr>
             else Inl OperationalError)
      | _ \<Rightarrow> Inl ProgrammingError)"

text \<open>
  \<open>conn.execute(sql, params)\<close> binds the parameters and runs the statement;
  \<open>conn.executemany\<close> does so for each tuple in turn and stops at the first exception.
  Inside \<open>with conn:\<close> an exception rolls the transaction back, so the callers below
  keep the old database whenever the result is \<open>Inl\<close>. Faults of the storage itself
  (a full disk, a locked or damaged file) are outside the model.
\<close>

definition execute_insert :: "runtime \<Rightarrow> db \<Rightarrow> pyval list \<Rightarrow> exc + db" where
  "execute_insert R d params =
     (case bind_params params of Inl e \<Rightarrow> Inl e | Inr vs \<Rightarrow> sql_insert R d vs)"

fun executemany_insert :: "runtime \<Rightarrow> db \<Rightarrow> pyval list list \<Rightarrow> exc + db" where
  "executemany_insert R d [] = Inr d"
| "executemany_insert R d (params # rest) =
     (case execute_insert R d params of
        Inl e \<Rightarrow> Inl e
      | Inr d' \<Rightarrow> executemany_insert R d' rest)"

text \<open>
  \<open>UPDATE movies SET c1 = ?, ..., cn = ? WHERE id = ?\<close>: the assignments are applied to
  every row with the given id; the new row must satisfy the constraints of the schema.
\<close>

datatype column = Title | Director | Genre | Year | Rating

fun assign :: "runtime \<Rightarrow> column \<times> sqlval \<Rightarrow> movie \<Rightarrow> exc + movie" where
  "assign R (Title, v) m =
     (case store_text R v of Inl e \<Rightarrow> Inl e | Inr s \<Rightarrow> Inr (m\<lparr>title := s\<rparr>))"
| "assign R (Director, v) m =
     (case store_text R v of Inl e \<Rightarrow> Inl e | Inr s \<Rightarrow> Inr (m\<lparr>director := s\<rparr>))"
| "assign R (Genre, v) m =
     (case store_text R v of Inl e \<Rightarrow> Inl e | Inr s \<Rightarrow> Inr (m\<lparr>genre := s\<rparr>))"
| "assign R (Year, v) m =
     (case store_year R v of Inl e \<Rightarrow> Inl e | Inr y \<Rightarrow> Inr (m\<lparr>year := y\<rparr>))"
| "assign R (Rating, v) m =
     (case store_rating R v of Inl e \<Rightarrow> Inl e | Inr r \<Rightarrow> Inr (m\<lparr>rating := r\<rparr>))"

fun assign_all :: "runtime \<Rightarrow> (column \<times> sqlval) list \<Rightarrow> movie \<Rightarrow> exc + movie" where
  "assign_all R [] m = Inr m"
| "assign_all R (a # as) m =
     (case assign R a m of Inl e \<Rightarrow> Inl e | Inr m' \<Rightarrow> assign_all R as m')"

fun update_rows ::
  "runtime \<Rightarrow> (column \<times> sqlval) list \<Rightarrow> sqlval \<Rightarrow> movie list \<Rightarrow> exc + movie list" where
  "update_rows R sets i [] = Inr []"
| "update_rows R sets i (m # ms) =
     (case (if SInt (movie_id m) = i then assign_all R sets m else Inr m) of
        Inl e \<Rightarrow> Inl e
      | Inr m' \<Rightarrow> (case update_rows R sets i ms of
                     Inl e \<Rightarrow> Inl e
                   | Inr ms' \<Rightarrow> Inr (m' # ms')))"

definition execute_update ::
  "runtime \<Rightarrow> db \<Rightarrow> (column \<times> pyval) list \<Rightarrow> pyval \<Rightarrow> exc + db" where
  "execute_update R d update_fields key =
     (case bind_params (map snd update_fields) of Inl e \<Rightarrow> Inl e | Inr vs \<Rightarrow>
      case bind_param key of Inl e \<Rightarrow> Inl e | Inr k \<Rightarrow>
      case update_rows R (zip (map fst update_fields) vs) k (movies d) of
        Inl e \<Rightarrow> Inl e
      | Inr ms \<Rightarrow> Inr (d\<lparr>movies := ms\<rparr>))"

text \<open>\<open>DELETE FROM movies WHERE id = ?\<close>, run for each id of the list in turn.\<close>

fun executemany_delete :: "db \<Rightarrow> pyval list \<Rightarrow> exc + db" where
  "executemany_delete d [] = Inr d"
| "executemany_delete d (key # rest) =
     (case bind_param key of
        Inl e \<Rightarrow> Inl e
      | Inr k \<Rightarrow>
          executemany_delete (d\<lparr>movies := filter (\<lambda>m. SInt (movie_id m) \<noteq> k) (movies d)\<rparr>) rest)"

section \<open>The operations of the program\<close>

text \<open>
  Each operation takes the lines that it would read from the console as arguments and
  returns the database after it together with the last message it prints.
\<close>

datatype message =
    MsgImported | MsgFileNotFound | MsgJsonError | MsgDbError | MsgOtherError
  | MsgRatingRange | MsgAdded | MsgNumberFormat
  | MsgNoData | MsgYearFormat | MsgRatingFormat | MsgModified | MsgNoChange
  | MsgAllDeleted | MsgDeleted | MsgCancelled
  | MsgExported | MsgExportError

text \<open>
  \<^verbatim>\<open>
  def search_movies(conn, title=''):
      try:
          with conn:
              if title:
                  cursor = conn.execute(
                      "SELECT * FROM movies WHERE title LIKE ?", (f'%{title}%',))
              else:
                  cursor = conn.execute("SELECT * FROM movies")
              movies = cursor.fetchall()
              return movies
      except sqlite3.DatabaseError as e: ...; return []
      except Exception as e: ...; return []
  \<close>
  The two ways a query can raise are a pattern that cannot be encoded and a pattern
  beyond the engine's length limit; both end in \<open>return []\<close>.
\<close>

definition search_movies :: "db \<Rightarrow> ustr \<Rightarrow> movie list" where
  "search_movies d title_arg =
     (if title_arg \<noteq> [] then
        (let pattern = u ''%'' @ title_arg @ u ''%'' in
         if \<not> encodable pattern then []
         else if SQLITE_MAX_LIKE_PATTERN_LENGTH < utf8_length pattern then []
         else filter (\<lambda>m. sql_like pattern (title m)) (movies d))
      else movies d)"

text \<open>
  \<^verbatim>\<open>
  def add_movie(conn):
      title = input(...).strip(); director = input(...).strip(); genre = input(...).strip()
      try:
          year = int(input(...).strip())
          rating = float(input(...).strip())
          if not (1.0 <= rating <= 10.0):
              print(...); return
          with conn:
              conn.execute('INSERT ...', (title, director, genre, year, rating))
          print(...)
      except ValueError: ...
      except sqlite3.DatabaseError as e: ...
      except Exception as e: ...
  \<close>
\<close>

definition in_range :: "pyfloat \<Rightarrow> bool" where
  "in_range r = (float_le (Fin 1) r \<and> float_le r (Fin 10))"

definition add_movie ::
  "runtime \<Rightarrow> db \<Rightarrow> ustr \<Rightarrow> ustr \<Rightarrow> ustr \<Rightarrow> ustr \<Rightarrow> ustr \<Rightarrow> db \<times> message" where
  "add_movie R d title_in director_in genre_in year_in rating_in =
     (case py_int R (strip year_in) of None \<Rightarrow> (d, MsgNumberFormat) | Some y \<Rightarrow>
      case py_float R (strip rating_in) of None \<Rightarrow> (d, MsgNumberFormat) | Some r \<Rightarrow>
        if \<not> in_range r then (d, MsgRatingRange)
        else
          (case execute_insert R d
                  [PStr (strip title_in), PStr (strip director_in), PStr (strip genre_in),
                   PInt y, PFloat r] of
             Inr d' \<Rightarrow> (d', MsgAdded)
           | Inl e \<Rightarrow> (d, if is_ValueError e then MsgNumberFormat
                          else if is_DatabaseError e then MsgDbError
                          else MsgOtherError)))"

text \<open>
  \<^verbatim>\<open>
  def modify_movie(conn):
      title = input(...).strip()
      movies = search_movies(conn, title)
      if not movies:
          print(...); return
      list_rpt(movies)
      movie = movies[0]
      new_title = input(...).strip()     # likewise new_director, new_genre,
      ...                                # new_year, new_rating
      update_fields = {}
      if new_title: update_fields['title'] = new_title
      if new_director: update_fields['director'] = new_director
      if new_genre: update_fields['genre'] = new_genre
      if new_year:
          try: update_fields['year'] = int(new_year)
          except ValueError: print(...); return
      if new_rating:
          try:
              rating_value = float(new_rating)
              if not (1.0 <= rating_value <= 10.0): print(...); return
              update_fields['rating'] = rating_value
          except ValueError: print(...); return
      if update_fields:
          set_clause = ', '.join(f"{k} = ?" for k in update_fields.keys())
          params = list(update_fields.values()) + [movie['id']]
          try:
              with conn:
                  conn.execute(f'UPDATE movies SET {set_clause} WHERE id = ?', params)
              print(...)
          except sqlite3.DatabaseError as e: ...
          except Exception as e: ...
      else:
          print(...)
  \<close>
  The first match of the title filter is the record to change. Each new value that is
  not empty after \<open>strip()\<close> enters \<open>update_fields\<close>, in the order title, director,
  genre, year, rating; a malformed year or rating returns before anything is written.
\<close>

definition text_field :: "column \<Rightarrow> ustr \<Rightarrow> (column \<times> pyval) list" where
  "text_field c new = (if new \<noteq> [] then [(c, PStr new)] else [])"

definition year_field :: "runtime \<Rightarrow> ustr \<Rightarrow> message + (column \<times> pyval) list" where
  "year_field R new_year =
     (if new_year \<noteq> [] then
        (case py_int R new_year of
           None \<Rightarrow> Inl MsgYearFormat
         | Some y \<Rightarrow> Inr [(Year, PInt y)])
      else Inr [])"

definition rating_field :: "runtime \<Rightarrow> ustr \<Rightarrow> message + (column \<times> pyval) list" where
  "rating_field R new_rating =
     (if new_rating \<noteq> [] then
        (case py_float R new_rating of
           None \<Rightarrow> Inl MsgRatingFormat
         | Some r \<Rightarrow> if \<not> in_range r then Inl MsgRatingRange else Inr [(Rating, PFloat r)])
      else Inr [])"

definition update_request ::
  "runtime \<Rightarrow> ustr \<Rightarrow> ustr \<Rightarrow> ustr \<Rightarrow> ustr \<Rightarrow> ustr \<Rightarrow> message + (column \<times> pyval) list" where
  "update_request R new_title new_director new_genre new_year new_rating =
     (case year_field R new_year of Inl msg \<Rightarrow> Inl msg | Inr fy \<Rightarrow>
      case rating_field R new_rating of Inl msg \<Rightarrow> Inl msg | Inr fr \<Rightarrow>
        Inr (text_field Title new_title @ text_field Director new_director
             @ text_field Genre new_genre @ fy @ fr))"

definition modify_movie ::
  "runtime \<Rightarrow> db \<Rightarrow> ustr \<Rightarrow> ustr \<Rightarrow> ustr \<Rightarrow> ustr \<Rightarrow> ustr \<Rightarrow> ustr \<Rightarrow> db \<times> message" where
  "modify_movie R d title_in new_title_in new_director_in new_genre_in new_year_in
      new_rating_in =
     (case search_movies d (strip title_in) of
        [] \<Rightarrow> (d, MsgNoData)
      | movie # _ \<Rightarrow>
          (case update_request R (strip new_title_in) (strip new_director_in)
                  (strip new_genre_in) (strip new_year_in) (strip new_rating_in) of
             Inl msg \<Rightarrow> (d, msg)
           | Inr update_fields \<Rightarrow>
               if update_fields \<noteq> [] then
                 (case execute_update R d update_fields (PInt (movie_id movie)) of
                    Inr d' \<Rightarrow> (d', MsgModified)
                  | Inl e \<Rightarrow> (d, if is_DatabaseError e then MsgDbError else MsgOtherError))
               else (d, MsgNoChange)))"

text \<open>
  \<^verbatim>\<open>
  def delete_movies(conn):
      all_delete = input(...).lower()
      if all_delete == 'y':
          confirm = input(...).lower()
          if confirm == 'y':
              try:
                  with conn: conn.execute('DELETE FROM movies')
                  print(...)
              except ...
          else: print(...)
      else:
          title = input(...).strip()
          movies = search_movies(conn, title)
          if not movies:
              print(...); return
          list_rpt(movies)
          confirm = input(...).lower()
          if confirm == 'y':
              try:
                  ids_to_delete = [movie['id'] for movie in movies]
                  with conn:
                      conn.executemany('DELETE FROM movies WHERE id = ?',
                                       [(id_,) for id_ in ids_to_delete])
                  print(...)
              except ...
          else: print(...)
  \<close>
  Either every record is deleted, after a second confirmation, or the records that the
  title filter finds, whose ids are collected before the deletion. (\<open>list_rpt\<close> only
  prints.)
\<close>

definition delete_movies :: "db \<Rightarrow> ustr \<Rightarrow> ustr \<Rightarrow> ustr \<Rightarrow> db \<times> message" where
  "delete_movies d all_delete_in title_in confirm_in =
     (if lower_is_y all_delete_in then
        (if lower_is_y confirm_in then (d\<lparr>movies := []\<rparr>, MsgAllDeleted)
         else (d, MsgCancelled))
      else
        (let found = search_movies d (strip title_in) in
         if found = [] then (d, MsgNoData)
         else if lower_is_y confirm_in then
           (case executemany_delete d (map (\<lambda>m. PInt (movie_id m)) found) of
              Inr d' \<Rightarrow> (d', MsgDeleted)
            | Inl e \<Rightarrow> (d, if is_DatabaseError e then MsgDbError else MsgOtherError))
         else (d, MsgCancelled)))"

section \<open>Bulk transfer\<close>

subsection \<open>Files\<close>

text \<open>
  A path holds nothing, a directory (which \<open>open\<close> refuses in either mode) or a file
  of bytes. Both files are opened with \<open>encoding='utf-8'\<close>: writing encodes the text,
  reading decodes the bytes, strictly (overlong forms, surrogates and code points beyond
  U+10FFFF raise \<open>UnicodeDecodeError\<close>), and then turns every line ending into a
  line feed. Line endings are written as they are, as on a POSIX system.
\<close>

datatype node = Missing | Dir | File "nat list"

definition utf8_encode_char :: "codepoint \<Rightarrow> nat list" where
  "utf8_encode_char c =
     (if c < 0x80 then [c]
      else if c < 0x800 then [0xC0 + c div 64, 0x80 + c mod 64]
      else if c < 0x10000 then [0xE0 + c div 4096, 0x80 + c div 64 mod 64, 0x80 + c mod 64]
      else [0xF0 + c div 262144, 0x80 + c div 4096 mod 64, 0x80 + c div 64 mod 64,
            0x80 + c mod 64])"

definition utf8_encode :: "ustr \<Rightarrow> nat list" where
  "utf8_encode s = concat (map utf8_encode_char s)"

definition continuation :: "nat \<Rightarrow> bool" where
  "continuation b = (0x80 \<le> b \<and> b < 0xC0)"

fun utf8_decode :: "nat list \<Rightarrow> ustr option" where
  "utf8_decode [] = Some []"
| "utf8_decode (b # bs) =
     (if b < 0x80 then map_option ((#) b) (utf8_decode bs)
      else if 0xC2 \<le> b \<and> b < 0xE0 then
        (case bs of
           b1 # r \<Rightarrow>
             if continuation b1
             then map_option ((#) ((b - 0xC0) * 64 + (b1 - 0x80))) (utf8_decode r)
             else None
         | _ \<Rightarrow> None)
      else if 0xE0 \<le> b \<and> b < 0xF0 then
        (case bs of
           b1 # b2 # r \<Rightarrow>
             (let c = (b - 0xE0) * 4096 + (b1 - 0x80) * 64 + (b2 - 0x80)
              in if continuation b1 \<and> continuation b2 \<and> 0x800 \<le> c \<and> scalar_value c
                 then map_option ((#) c) (utf8_decode r)
                 else None)
         | _ \<Rightarrow> None)
      else if 0xF0 \<le> b \<and> b < 0xF5 then
        (case bs of
           b1 # b2 # b3 # r \<Rightarrow>
             (let c = (b - 0xF0) * 262144 + (b1 - 0x80) * 4096 + (b2 - 0x80) * 64 + (b3 - 0x80)
              in if continuation b1 \<and> continuation b2 \<and> continuation b3
                    \<and> 0x10000 \<le> c \<and> c < 0x110000
                 then map_option ((#) c) (utf8_decode r)
                 else None)
         | _ \<Rightarrow> None)
      else None)"

fun universal_newlines :: "ustr \<Rightarrow> ustr" where
  "universal_newlines [] = []"
| "universal_newlines [c] = [if c = 0x0D then 0x0A else c]"
| "universal_newlines (c # d # s) =
     (if c = 0x0D \<and> d = 0x0A then 0x0A # universal_newlines s
      else if c = 0x0D then 0x0A # universal_newlines (d # s)
      else c # universal_newlines (d # s))"

definition read_text :: "nat list \<Rightarrow> exc + ustr" where
  "read_text bytes =
     (case utf8_decode bytes of
        None \<Rightarrow> Inl UnicodeDecodeError
      | Some text \<Rightarrow> Inr (universal_newlines text))"

type_synonym fs = "string \<Rightarrow> node"

definition JSON_IN_PATH :: string where
  "JSON_IN_PATH = ''movies.json''"


subsection \<open>Writing JSON\<close>









subsection \<open>Export\<close>



subsection \<open>Import\<close>

text \<open>
  \<^verbatim>\<open>
  def import_movies(conn):
      try:
          with open(JSON_IN_PATH, 'r', encoding='utf-8') as f:
              movies = json.load(f)
          with conn:
              conn.executemany('INSERT ...',
                  [(movie['title'], movie['director'], movie['genre'],
                    movie['year'], movie['rating']) for movie in movies])
          print(...)
      except FileNotFoundError: ...
      except json.JSONDecodeError: ...
      except sqlite3.DatabaseError as e: ...
      except Exception as e: ...
  \<close>
  Nothing checks the shape of the document: the comprehension iterates whatever was
  loaded and subscripts each element, and the engine stores whatever value it is given
  under the rules of the schema.
\<close>

fun iterate :: "pyval \<Rightarrow> exc + pyval list" where
  "iterate (PList xs) = Inr xs"
| "iterate (PDict kvs) = Inr (map (\<lambda>kv. PStr (fst kv)) kvs)"
| "iterate (PStr s) = Inr (map (\<lambda>c. PStr [c]) s)"
| "iterate v = Inl TypeError"

fun subscript :: "pyval \<Rightarrow> ustr \<Rightarrow> exc + pyval" where
  "subscript (PDict kvs) k = (case map_of kvs k of None \<Rightarrow> Inl KeyError | Some v \<Rightarrow> Inr v)"
| "subscript v k = Inl TypeError"

definition movie_params :: "pyval \<Rightarrow> exc + pyval list" where
  "movie_params movie =
     (case subscript movie (u ''title'') of Inl e \<Rightarrow> Inl e | Inr t \<Rightarrow>
      case subscript movie (u ''director'') of Inl e \<Rightarrow> Inl e | Inr dr \<Rightarrow>
      case subscript movie (u ''genre'') of Inl e \<Rightarrow> Inl e | Inr g \<Rightarrow>
      case subscript movie (u ''year'') of Inl e \<Rightarrow> Inl e | Inr y \<Rightarrow>
      case subscript movie (u ''rating'') of Inl e \<Rightarrow> Inl e | Inr r \<Rightarrow>
        Inr [t, dr, g, y, r])"

fun comprehension :: "pyval list \<Rightarrow> exc + pyval list list" where
  "comprehension [] = Inr []"
| "comprehension (movie # rest) =
     (case movie_params movie of
        Inl e \<Rightarrow> Inl e
      | Inr ps \<Rightarrow> (case comprehension rest of Inl e \<Rightarrow> Inl e | Inr pss \<Rightarrow> Inr (ps # pss)))"

definition import_handler :: "exc \<Rightarrow> message" where
  "import_handler e =
     (if e = FileNotFoundError then MsgFileNotFound
      else if e = JSONDecodeError then MsgJsonError
      else if is_DatabaseError e then MsgDbError
      else MsgOtherError)"

definition import_text :: "runtime \<Rightarrow> db \<Rightarrow> ustr \<Rightarrow> exc + db" where
  "import_text R d text =
     (case json_loads R text of Inl e \<Rightarrow> Inl e | Inr loaded \<Rightarrow>
      case iterate loaded of Inl e \<Rightarrow> Inl e | Inr elements \<Rightarrow>
      case comprehension elements of Inl e \<Rightarrow> Inl e | Inr pss \<Rightarrow>
        executemany_insert R d pss)"

definition import_movies :: "runtime \<Rightarrow> fs \<Rightarrow> db \<Rightarrow> db \<times> message" where
  "import_movies R files d =
     (case files JSON_IN_PATH of
        Missing \<Rightarrow> (d, import_handler FileNotFoundError)
      | Dir \<Rightarrow> (d, import_handler IsADirectoryError)
      | File bytes \<Rightarrow>
          (case read_text bytes of
             Inl e \<Rightarrow> (d, import_handler e)
           | Inr text \<Rightarrow>
               (case import_text R d text of
                  Inl e \<Rightarrow> (d, import_handler e)
                | Inr d' \<Rightarrow> (d', MsgImported))))"

section \<open>Display formatter\<close>

text \<open>
  The East Asian Width property of the Unicode character database. The table itself
  belongs to the Python runtime, so \<open>get_display_width\<close> takes the classification as
  a parameter.
\<close>

datatype eaw = EA_F | EA_W | EA_A | EA_H | EA_Na | EA_N

text \<open>
  \<^verbatim>\<open>
  def get_display_width(s):
      width = 0
      for ch in s:
          if unicodedata.east_asian_width(ch) in ('F', 'W', 'A'):
              width += 2
          else:
              width += 1
      return width
  \<close>
  The loop is the left fold below, started at 0.
\<close>

fun width_loop :: "(codepoint \<Rightarrow> eaw) \<Rightarrow> int \<Rightarrow> ustr \<Rightarrow> int" where
  "width_loop ea width [] = width"
| "width_loop ea width (ch # s) =
     (if ea ch \<in> {EA_F, EA_W, EA_A}
      then width_loop ea (width + 2) s
      else width_loop ea (width + 1) s)"

definition get_display_width :: "(codepoint \<Rightarrow> eaw) \<Rightarrow> ustr \<Rightarrow> int" where
  "get_display_width ea s = width_loop ea 0 s"

text \<open>
  \<^verbatim>\<open>
  def pad_string(s, total_width):
      padding = total_width - get_display_width(s)
      return s + ' ' * max(padding, 0)
  \<close>
  \<open>' ' * n\<close> is the empty string for \<open>n \<le> 0\<close>; \<open>total_width\<close> is any Python int.
\<close>

definition pad_string :: "(codepoint \<Rightarrow> eaw) \<Rightarrow> ustr \<Rightarrow> int \<Rightarrow> ustr" where
  "pad_string ea s total_width =
     (let padding = total_width - get_display_width ea s
      in s @ replicate (nat (max padding 0)) 32)"

text \<open>
  A fragment of the Unicode table, enough to run the formatter on Latin and CJK text:
  the CJK unified ideographs and the fullwidth forms are wide, printable ASCII is narrow.
\<close>

definition eaw_fragment :: "codepoint \<Rightarrow> eaw" where
  "eaw_fragment c =
     (if 0x4E00 \<le> c \<and> c \<le> 0x9FFF then EA_W
      else if 0xFF01 \<le> c \<and> c \<le> 0xFF60 then EA_F
      else if 0x20 \<le> c \<and> c \<le> 0x7E then EA_Na
      else EA_N)"

definition wide :: "(codepoint \<Rightarrow> eaw) \<Rightarrow> codepoint \<Rightarrow> bool" where
  "wide ea ch = (ea ch = EA_F \<or> ea ch = EA_W \<or> ea ch = EA_A)"

section \<open>Well-formed stores\<close>

text \<open>
  Well-formed databases, an invariant of the operations. Ids are positive 64-bit
  integers, unique, and not above the AUTOINCREMENT counter; texts are encodable; a year
  is what INTEGER affinity leaves as it is (NULL excluded); a rating is NULL or a real in
  the range.
\<close>

fun year_ok :: "runtime \<Rightarrow> sqlval \<Rightarrow> bool" where
  "year_ok R SNull = False"
| "year_ok R (SInt i) = int64 i"
| "year_ok R (SReal f) = (f \<noteq> NaN \<and> real_to_integer f = SReal f)"
| "year_ok R (SText s) = (encodable s \<and> sql_numeric R s = None)"

fun rating_ok :: "sqlval \<Rightarrow> bool" where
  "rating_ok SNull = True"
| "rating_ok (SReal f) = in_range f"
| "rating_ok v = False"

definition wf_row :: "runtime \<Rightarrow> movie \<Rightarrow> bool" where
  "wf_row R m =
     (1 \<le> movie_id m \<and> int64 (movie_id m)
      \<and> encodable (title m) \<and> encodable (director m) \<and> encodable (genre m)
      \<and> year_ok R (year m) \<and> rating_ok (rating m))"

definition wf_db :: "runtime \<Rightarrow> db \<Rightarrow> bool" where
  "wf_db R d =
     (list_all (wf_row R) (movies d)
      \<and> distinct (map movie_id (movies d))
      \<and> list_all (\<lambda>m. movie_id m \<le> sqlite_sequence d) (movies d)
      \<and> 0 \<le> sqlite_sequence d)"

text \<open>
  What the engine's reading of numbers must satisfy for the states above to be closed
  under the operations: an integer it reads fits 64 bits and a real it reads is not NaN.
\<close>

definition engine_ok :: "runtime \<Rightarrow> bool" where
  "engine_ok R =
     (\<forall>s. case sql_numeric R s of
             None \<Rightarrow> True
           | Some (Inl i) \<Rightarrow> int64 i
           | Some (Inr f) \<Rightarrow> f \<noteq> NaN)"

fun bound_ok :: "sqlval \<Rightarrow> bool" where
  "bound_ok SNull = True"
| "bound_ok (SInt i) = int64 i"
| "bound_ok (SReal f) = (f \<noteq> NaN)"
| "bound_ok (SText s) = encodable s"

text \<open>
  The values that a column stores as they are: a text in a text column, an integer as
  the year, a real between 1 and 10 as the rating.
\<close>

fun accepted :: "column \<times> sqlval \<Rightarrow> bool" where
  "accepted (Year, v) = (\<exists>y. v = SInt y)"
| "accepted (Rating, v) = (\<exists>r. v = SReal r \<and> in_range r)"
| "accepted (c, v) = (\<exists>s. v = SText s)"

text \<open>
  The databases the program can have reached: it starts from the empty table and applies
  its operations, with any input.
\<close>

inductive reachable :: "runtime \<Rightarrow> db \<Rightarrow> bool" for R :: runtime where
  start: "reachable R empty_db"
| added: "reachable R d \<Longrightarrow>
          reachable R (fst (add_movie R d title_in director_in genre_in year_in rating_in))"
| modified: "reachable R d \<Longrightarrow>
          reachable R (fst (modify_movie R d title_in new_title_in new_director_in new_genre_in
                              new_year_in new_rating_in))"
| deleted: "reachable R d \<Longrightarrow>
          reachable R (fst (delete_movies d all_delete_in title_in confirm_in))"
| imported: "reachable R d \<Longrightarrow> reachable R (fst (import_movies R files d))"





section \<open>The exported text\<close>





section \<open>Reference notions and sample data\<close>

text \<open>
  Plain substring containment, character by character and case-sensitive, and the
  search that returns the records whose title contains the filter in that sense.
\<close>

fun is_substring :: "ustr \<Rightarrow> ustr \<Rightarrow> bool" where
  "is_substring x [] = (x = [])"
| "is_substring x (c # s) = (take (length x) (c # s) = x \<or> is_substring x s)"

definition substring_search :: "db \<Rightarrow> ustr \<Rightarrow> movie list" where
  "substring_search d x = filter (\<lambda>m. is_substring x (title m)) (movies d)"

text \<open>The double nearest to 8.8, and a store holding one record.\<close>

definition float_8_8 :: pyfloat where
  "float_8_8 = Fin (2476979795053773 / 281474976710656)"

definition inception :: movie where
  "inception = \<lparr>movie_id = 1, title = u ''Inception'', director = u ''Nolan'',
                  genre = u ''Sci-Fi'', year = SInt 2010, rating = SReal float_8_8\<rparr>"

definition inception_db :: db where
  "inception_db = \<lparr>movies = [inception], sqlite_sequence = 1\<rparr>"

definition interstellar :: movie where
  "interstellar = \<lparr>movie_id = 2, title = u ''Interstellar'', director = u ''Nolan'',
                     genre = u ''Sci-Fi'', year = SInt 2014, rating = SReal (Fin (17 / 2))\<rparr>"

definition nolan_db :: db where
  "nolan_db = \<lparr>movies = [inception, interstellar], sqlite_sequence = 2\<rparr>"

text \<open>
  A runtime for running the operations on examples. It reads unsigned ASCII decimal
  numerals as integers and the float literals of the examples as Python reads them (the
  doubles nearest to 8.8, 0.99 and 10.01), and refuses every other text.
\<close>

definition sample_int :: "ustr \<Rightarrow> int option" where
  "sample_int s =
     (if s \<noteq> [] \<and> list_all (\<lambda>c. 48 \<le> c \<and> c \<le> 57) s
      then Some (int (foldl (\<lambda>a c. 10 * a + (c - 48)) 0 s)) else None)"

definition sample_float :: "ustr \<Rightarrow> pyfloat option" where
  "sample_float s =
     (if s = u ''1.0'' then Some (Fin 1)
      else if s = u ''10.0'' then Some (Fin 10)
      else if s = u ''9.0'' then Some (Fin 9)
      else if s = u ''8.8'' then Some float_8_8
      else if s = u ''0.99'' then Some (Fin (4458563631096791 / 4503599627370496))
      else if s = u ''10.01'' then Some (Fin (5635129033747333 / 562949953421312))
      else None)"

definition sample_repr :: "rat \<Rightarrow> string" where
  "sample_repr q =
     (if q = 1 then ''1.0'' else if q = 10 then ''10.0'' else if q = 9 then ''9.0''
      else if Fin q = float_8_8 then ''8.8'' else ''?'')"

definition sample_runtime :: runtime where
  "sample_runtime =
     \<lparr>py_int = sample_int, py_float = sample_float, float_repr = sample_repr,
      json_loads = (\<lambda>t. Inl JSONDecodeError),
      sql_numeric = (\<lambda>s. map_option Inl (sample_int s)),
      sql_real_text = (\<lambda>f. case f of Fin q \<Rightarrow> sample_repr q | _ \<Rightarrow> ''Inf''),
      partial_write = (\<lambda>t. [])\<rparr>"

definition no_files :: fs where
  "no_files = (\<lambda>p. Missing)"



definition null_rating_text :: ustr where
  \<open>null_rating_text =
     u ''[{"title": "Untitled", "director": "Nobody", "genre": "Drama", "year": 2000, "rating": null}]''\<close>

definition null_rating_doc :: pyval where
  "null_rating_doc =
     PList [PDict [(u ''title'', PStr (u ''Untitled'')), (u ''director'', PStr (u ''Nobody'')),
                   (u ''genre'', PStr (u ''Drama'')), (u ''year'', PInt 2000),
                   (u ''rating'', PNone)]]"

definition null_runtime :: runtime where
  "null_runtime =
     sample_runtime\<lparr>json_loads :=
       (\<lambda>t. if t = null_rating_text then Inr null_rating_doc else Inl JSONDecodeError)\<rparr>"

section \<open>Display formatter: properties\<close>

lemma width_loop_acc: "width_loop ea w s = w + width_loop ea 0 s"
proof (induction s arbitrary: w)
  case Nil
  show ?case by simp
next
  case (Cons ch s)
  have a: "width_loop ea (w + 2) s = w + 2 + width_loop ea 0 s"
    by (rule Cons.IH)
  have b: "width_loop ea (w + 1) s = w + 1 + width_loop ea 0 s"
    by (rule Cons.IH)
  have c: "width_loop ea 2 s = 2 + width_loop ea 0 s"
    by (rule Cons.IH)
  have d: "width_loop ea 1 s = 1 + width_loop ea 0 s"
    by (rule Cons.IH)
  show ?case using a b c d by simp
qed

lemma get_display_width_Nil: "get_display_width ea [] = 0"
  by (simp add: get_display_width_def)

lemma get_display_width_Cons:
  "get_display_width ea (ch # s) = (if wide ea ch then 2 else 1) + get_display_width ea s"
  using width_loop_acc [of ea 2 s] width_loop_acc [of ea 1 s]
  by (simp add: get_display_width_def wide_def)

lemma get_display_width_count:
  "get_display_width ea s =
     2 * int (length (filter (wide ea) s)) + int (length (filter (\<lambda>ch. \<not> wide ea ch) s))"
  by (induction s) (simp_all add: get_display_width_Nil get_display_width_Cons)

lemma pad_string_unchanged:
  "total_width \<le> get_display_width ea s \<Longrightarrow> pad_string ea s total_width = s"
  by (simp add: pad_string_def Let_def)

text \<open>
  Claim C7. The display width of a string is twice the number of its fullwidth, wide and
  ambiguous characters plus the number of its other characters. With the Unicode classes
  of \<open>A\<close>, \<open>B\<close> (narrow) and U+4E2D (wide) this gives widths 1, 2 and 4 for
  \<open>"A"\<close>, U+4E2D and \<open>"A"\<close> U+4E2D \<open>"B"\<close>, and padding U+4E2D to width 4 appends
  exactly two spaces. A string whose width already reaches the target width is returned
  as it is, never truncated.
\<close>

theorem C7_display_width_and_pad:
  "get_display_width ea s =
     2 * int (length (filter (wide ea) s)) + int (length (filter (\<lambda>ch. \<not> wide ea ch) s))
   \<and> (ea 0x41 = EA_Na \<and> ea 0x42 = EA_Na \<and> ea 0x4E2D = EA_W \<longrightarrow>
        get_display_width ea (u ''A'') = 1
      \<and> get_display_width ea [0x4E2D] = 2
      \<and> get_display_width ea (u ''A'' @ [0x4E2D] @ u ''B'') = 4
      \<and> pad_string ea [0x4E2D] 4 = [0x4E2D] @ u ''  '')
   \<and> (total_width \<le> get_display_width ea s \<longrightarrow> pad_string ea s total_width = s)"
proof (intro conjI impI)
  show "get_display_width ea s =
     2 * int (length (filter (wide ea) s)) + int (length (filter (\<lambda>ch. \<not> wide ea ch) s))"
    by (rule get_display_width_count)
next
  assume h: "ea 0x41 = EA_Na \<and> ea 0x42 = EA_Na \<and> ea 0x4E2D = EA_W"
  show "get_display_width ea (u ''A'') = 1"
    using h by (simp add: u_def get_display_width_Nil get_display_width_Cons wide_def)
next
  assume h: "ea 0x41 = EA_Na \<and> ea 0x42 = EA_Na \<and> ea 0x4E2D = EA_W"
  show "get_display_width ea [0x4E2D] = 2"
    using h by (simp add: get_display_width_Nil get_display_width_Cons wide_def)
next
  assume h: "ea 0x41 = EA_Na \<and> ea 0x42 = EA_Na \<and> ea 0x4E2D = EA_W"
  show "get_display_width ea (u ''A'' @ [0x4E2D] @ u ''B'') = 4"
    using h by (simp add: u_def get_display_width_Nil get_display_width_Cons wide_def)
next
  assume h: "ea 0x41 = EA_Na \<and> ea 0x42 = EA_Na \<and> ea 0x4E2D = EA_W"
  have w: "get_display_width ea [0x4E2D] = 2"
    using h by (simp add: get_display_width_Nil get_display_width_Cons wide_def)
  show "pad_string ea [0x4E2D] 4 = [0x4E2D] @ u ''  ''"
    by (simp add: pad_string_def Let_def w u_def numeral_2_eq_2)
next
  assume "total_width \<le> get_display_width ea s"
  then show "pad_string ea s total_width = s"
    by (rule pad_string_unchanged)
qed

theorem C7_display_width_and_pad_witness:
  "get_display_width eaw_fragment (u ''A'') = 1
   \<and> get_display_width eaw_fragment [0x4E2D] = 2
   \<and> get_display_width eaw_fragment (u ''A'' @ [0x4E2D] @ u ''B'') = 4
   \<and> pad_string eaw_fragment [0x4E2D] 4 = [0x4E2D] @ u ''  ''
   \<and> (4::int) \<le> get_display_width eaw_fragment (u ''A'' @ [0x4E2D] @ u ''B'')
   \<and> pad_string eaw_fragment (u ''A'' @ [0x4E2D] @ u ''B'') 4 = u ''A'' @ [0x4E2D] @ u ''B''"
proof -
  have e: "eaw_fragment 0x41 = EA_Na \<and> eaw_fragment 0x42 = EA_Na \<and> eaw_fragment 0x4E2D = EA_W"
    by (simp add: eaw_fragment_def)
  have w: "get_display_width eaw_fragment (u ''A'' @ [0x4E2D] @ u ''B'') = 4"
    using C7_display_width_and_pad [of eaw_fragment "[]" 0] e by blast
  show ?thesis
    using C7_display_width_and_pad [of eaw_fragment "u ''A'' @ [0x4E2D] @ u ''B''" 4] e w
    by simp
qed

section \<open>Search\<close>

lemma is_substring_iff: "is_substring x s \<longleftrightarrow> (\<exists>a b. s = a @ x @ b)"
proof (induction s)
  case Nil
  show ?case by auto
next
  case (Cons c s)
  have "(\<exists>a b. c # s = a @ x @ b) \<longleftrightarrow> (\<exists>b. c # s = x @ b) \<or> (\<exists>a b. s = a @ x @ b)"
    (is "?L \<longleftrightarrow> ?R")
  proof
    assume ?L
    then obtain a b where ab: "c # s = a @ x @ b" by blast
    show ?R
    proof (cases a)
      case Nil
      with ab show ?thesis by auto
    next
      case (Cons a0 a')
      with ab have "s = a' @ x @ b" by simp
      then show ?thesis by blast
    qed
  next
    assume ?R
    then show ?L
    proof
      assume "\<exists>b. c # s = x @ b"
      then obtain b where "c # s = [] @ x @ b" by auto
      then show ?L by blast
    next
      assume "\<exists>a b. s = a @ x @ b"
      then obtain a b where "c # s = (c # a) @ x @ b" by auto
      then show ?L by blast
    qed
  qed
  moreover have "(\<exists>b. c # s = x @ b) \<longleftrightarrow> take (length x) (c # s) = x"
    by (metis append_eq_conv_conj append_take_drop_id)
  ultimately show ?case using Cons.IH by simp
qed

lemma like_percent: "like [37] s"
  by (induction s) auto

text \<open>A leading \<open>%\<close> lets the rest of the pattern match any suffix of the text.\<close>

lemma like_any_prefix: "like (37 # p) s \<longleftrightarrow> (\<exists>a b. s = a @ b \<and> like p b)"
proof (induction s)
  case Nil
  show ?case by auto
next
  case (Cons d s)
  have "(\<exists>a b. d # s = a @ b \<and> like p b) \<longleftrightarrow> like p (d # s) \<or> (\<exists>a b. s = a @ b \<and> like p b)"
    (is "?L \<longleftrightarrow> ?R")
  proof
    assume ?L
    then obtain a b where ab: "d # s = a @ b" "like p b" by blast
    show ?R
    proof (cases a)
      case Nil
      with ab show ?thesis by simp
    next
      case (Cons a0 a')
      with ab have "s = a' @ b" by simp
      with ab(2) show ?thesis by blast
    qed
  next
    assume ?R
    then show ?L
    proof
      assume "like p (d # s)"
      then have "d # s = [] @ (d # s) \<and> like p (d # s)" by simp
      then show ?L by blast
    next
      assume "\<exists>a b. s = a @ b \<and> like p b"
      then obtain a b where "d # s = (d # a) @ b \<and> like p b" by auto
      then show ?L by blast
    qed
  qed
  then show ?case using Cons.IH by simp
qed

text \<open>A trailing \<open>%\<close> lets the rest of the pattern match any prefix of the text.\<close>

lemma like_any_suffix: "like (p @ [37]) s \<longleftrightarrow> (\<exists>a b. s = a @ b \<and> like p a)"
proof (induction p s rule: like.induct)
  case (1 s)
  have "\<exists>a b. s = a @ b \<and> a = []" by simp
  then show ?case by (simp add: like_percent)
next
  case (2 c p)
  then show ?case by simp
next
  case (3 c p d s)
  show ?case
  proof (cases "c = 37")
    case True
    have "like ((c # p) @ [37]) (d # s) \<longleftrightarrow> like (p @ [37]) (d # s) \<or> like ((c # p) @ [37]) s"
      using True by simp
    also have "\<dots> \<longleftrightarrow> (\<exists>a b. d # s = a @ b \<and> like p a) \<or> (\<exists>a b. s = a @ b \<and> like (c # p) a)"
      using 3(1,2) True by simp
    also have "\<dots> \<longleftrightarrow> (\<exists>a b. d # s = a @ b \<and> like (c # p) a)" (is "?L \<longleftrightarrow> ?R")
    proof
      assume ?L
      then show ?R
      proof
        assume "\<exists>a b. d # s = a @ b \<and> like p a"
        then obtain a b where ab: "d # s = a @ b" "like p a" by blast
        have "like (c # p) a" using ab(2) True like_any_prefix [of p a] by (metis append_Nil)
        with ab(1) show ?R by blast
      next
        assume "\<exists>a b. s = a @ b \<and> like (c # p) a"
        then obtain a b where ab: "s = a @ b" "like (c # p) a" by blast
        have "like (c # p) (d # a)" using ab(2) True by simp
        moreover have "d # s = (d # a) @ b" using ab(1) by simp
        ultimately show ?R by blast
      qed
    next
      assume ?R
      then obtain a b where ab: "d # s = a @ b" "like (c # p) a" by blast
      show ?L
      proof (cases a)
        case Nil
        with ab(2) True have "like p []" by simp
        with ab(1) Nil show ?thesis by auto
      next
        case (Cons a0 a')
        with ab(1) have e: "a0 = d" "s = a' @ b" by simp_all
        from ab(2) Cons True have "like p (d # a') \<or> like (c # p) a'" using e by simp
        then show ?thesis using e ab(1) Cons by blast
      qed
    qed
    finally show ?thesis .
  next
    case False
    have "like ((c # p) @ [37]) (d # s) \<longleftrightarrow>
            (c = 95 \<or> ascii_lower c = ascii_lower d) \<and> like (p @ [37]) s"
      using False by simp
    also have "\<dots> \<longleftrightarrow>
            (c = 95 \<or> ascii_lower c = ascii_lower d) \<and> (\<exists>a b. s = a @ b \<and> like p a)"
      using 3(3) False by simp
    also have "\<dots> \<longleftrightarrow> (\<exists>a b. d # s = a @ b \<and> like (c # p) a)" (is "?L \<longleftrightarrow> ?R")
    proof
      assume l: ?L
      then obtain a b where ab: "s = a @ b" "like p a" by blast
      have "like (c # p) (d # a)" using l ab(2) False by simp
      moreover have "d # s = (d # a) @ b" using ab(1) by simp
      ultimately show ?R by blast
    next
      assume ?R
      then obtain a b where ab: "d # s = a @ b" "like (c # p) a" by blast
      show ?L
      proof (cases a)
        case Nil
        with ab(2) False show ?thesis by simp
      next
        case (Cons a0 a')
        with ab(1) have e: "a0 = d" "s = a' @ b" by simp_all
        from ab(2) Cons False e
        have "(c = 95 \<or> ascii_lower c = ascii_lower d) \<and> like p a'" by simp
        then show ?thesis using e by blast
      qed
    qed
    finally show ?thesis .
  qed
qed

lemma like_contains:
  "like (37 # x @ [37]) s \<longleftrightarrow> (\<exists>a mid b. s = a @ mid @ b \<and> like x mid)"
proof -
  have "like (37 # x @ [37]) s \<longleftrightarrow> (\<exists>a r. s = a @ r \<and> like (x @ [37]) r)"
    by (rule like_any_prefix)
  also have "\<dots> \<longleftrightarrow> (\<exists>a r. s = a @ r \<and> (\<exists>mid b. r = mid @ b \<and> like x mid))"
    by (simp only: like_any_suffix)
  also have "\<dots> \<longleftrightarrow> (\<exists>a mid b. s = a @ mid @ b \<and> like x mid)"
    by blast
  finally show ?thesis .
qed

text \<open>Without wildcards a pattern matches the texts equal to it up to ASCII case.\<close>

lemma like_literal:
  "37 \<notin> set x \<Longrightarrow> 95 \<notin> set x \<Longrightarrow> like x mid \<longleftrightarrow> map ascii_lower mid = map ascii_lower x"
proof (induction x mid rule: like.induct)
  case (1 s)
  then show ?case by auto
next
  case (2 c p)
  then show ?case by auto
next
  case (3 c p d s)
  then show ?case by auto
qed

lemma c_str_id: "0 \<notin> set x \<Longrightarrow> c_str x = x"
  unfolding c_str_def by (induction x) auto

lemma c_str_pattern: "0 \<notin> set x \<Longrightarrow> c_str (u ''%'' @ x @ u ''%'') = 37 # x @ [37]"
proof -
  assume "0 \<notin> set x"
  then have "0 \<notin> set (37 # x @ [37])" by simp
  then have "c_str (37 # x @ [37]) = 37 # x @ [37]" by (rule c_str_id)
  then show ?thesis by (simp add: u_def)
qed

lemma encodable_pattern: "encodable (u ''%'' @ x @ u ''%'') = encodable x"
  by (simp add: encodable_def u_def scalar_value_def)

lemma utf8_length_pattern: "utf8_length (u ''%'' @ x @ u ''%'') = utf8_length x + 2"
  by (simp add: utf8_length_def u_def)

lemma search_movies_empty: "search_movies d [] = movies d"
  by (simp add: search_movies_def)

lemma search_movies_filter:
  "\<exists>P. search_movies d x = filter P (movies d)"
proof -
  have a: "[] = filter (\<lambda>m. False) (movies d)" by simp
  have b: "movies d = filter (\<lambda>m. True) (movies d)" by simp
  show ?thesis
    unfolding search_movies_def Let_def using a b by (metis (full_types))
qed

lemma sql_text_pattern: "0 \<notin> set x \<Longrightarrow> sql_text (u ''%'' @ x @ u ''%'') = 37 # sql_text x @ [37]"
  by (simp add: sql_text_def c_str_pattern c_str_id utf8_read_def)

lemma search_movies_like:
  assumes "x \<noteq> []" "encodable x" "utf8_length x + 2 \<le> SQLITE_MAX_LIKE_PATTERN_LENGTH"
    and "0 \<notin> set x"
  shows "search_movies d x =
           filter (\<lambda>m. \<exists>a mid b. sql_text (title m) = a @ mid @ b \<and> like (sql_text x) mid)
             (movies d)"
proof -
  have "search_movies d x = filter (\<lambda>m. sql_like (u ''%'' @ x @ u ''%'') (title m)) (movies d)"
    using assms(1,2,3)
    by (simp add: search_movies_def Let_def encodable_pattern utf8_length_pattern
        del: append.simps)
  also have "\<dots> = filter (\<lambda>m. like (37 # sql_text x @ [37]) (sql_text (title m))) (movies d)"
    by (simp only: sql_like_def sql_text_pattern [OF assms(4)])
  also have "\<dots> = filter (\<lambda>m. \<exists>a mid b. sql_text (title m) = a @ mid @ b \<and> like (sql_text x) mid)
                      (movies d)"
    by (simp only: like_contains)
  finally show ?thesis .
qed

lemma c_str_pattern_nul: "0 \<in> set x \<Longrightarrow> c_str (u ''%'' @ x @ u ''%'') = 37 # c_str x"
proof -
  assume "0 \<in> set x"
  then have "takeWhile (\<lambda>c. c \<noteq> 0) (x @ [37]) = takeWhile (\<lambda>c. c \<noteq> 0) x"
    by (induction x) auto
  then show ?thesis by (simp add: c_str_def u_def)
qed

lemma sql_text_pattern_nul: "0 \<in> set x \<Longrightarrow> sql_text (u ''%'' @ x @ u ''%'') = 37 # sql_text x"
  by (simp add: sql_text_def c_str_pattern_nul utf8_read_def)

lemma search_movies_like_nul:
  assumes "x \<noteq> []" "encodable x" "utf8_length x + 2 \<le> SQLITE_MAX_LIKE_PATTERN_LENGTH"
    and "0 \<in> set x"
  shows "search_movies d x =
           filter (\<lambda>m. \<exists>a b. sql_text (title m) = a @ b \<and> like (sql_text x) b) (movies d)"
proof -
  have "search_movies d x = filter (\<lambda>m. sql_like (u ''%'' @ x @ u ''%'') (title m)) (movies d)"
    using assms(1,2,3)
    by (simp add: search_movies_def Let_def encodable_pattern utf8_length_pattern
        del: append.simps)
  also have "\<dots> = filter (\<lambda>m. like (37 # sql_text x) (sql_text (title m))) (movies d)"
    by (simp only: sql_like_def sql_text_pattern_nul [OF assms(4)])
  also have "\<dots> = filter (\<lambda>m. \<exists>a b. sql_text (title m) = a @ b \<and> like (sql_text x) b) (movies d)"
    by (simp only: like_any_prefix)
  finally show ?thesis .
qed

lemma sql_text_wildcards: "(37 \<in> set (sql_text x) \<longrightarrow> 37 \<in> set x) \<and> (95 \<in> set (sql_text x) \<longrightarrow> 95 \<in> set x)"
  by (auto simp add: sql_text_def c_str_def utf8_read_def dest: set_takeWhileD split: if_splits)

lemma like_sql_text_literal:
  assumes "37 \<notin> set x" "95 \<notin> set x"
  shows "like (sql_text x) mid \<longleftrightarrow> map ascii_lower mid = map ascii_lower (sql_text x)"
  using like_literal [of "sql_text x" mid] sql_text_wildcards [of x] assms by blast

lemma search_movies_refused:
  assumes "x \<noteq> []"
    and "\<not> encodable x \<or> SQLITE_MAX_LIKE_PATTERN_LENGTH < utf8_length x + 2"
  shows "search_movies d x = []"
  using assms
  by (auto simp add: search_movies_def Let_def encodable_pattern utf8_length_pattern
      simp del: append.simps)

text \<open>
  Claim C1, as the code has it. A search with an empty (or omitted) filter returns the
  whole table. The engine reads a text up to its first NUL and reads U+FFFE and U+FFFF
  as U+FFFD (\<open>sql_text\<close>). A search with a non-empty filter \<open>x\<close> that has no NUL
  character and whose pattern \<open>%x%\<close> the engine accepts returns exactly the records
  whose title, so read, has a part that \<open>x\<close>, so read, matches as a LIKE pattern; for
  \<open>x\<close> without \<open>%\<close> and \<open>_\<close> these are the parts equal to \<open>x\<close> up to the case of the
  ASCII letters. A filter with a NUL character acts as the pattern \<open>%\<close> followed by its
  part before the NUL. A filter that cannot be encoded or whose pattern exceeds the
  engine's limit returns nothing.
\<close>

theorem C1_search_like:
  "search_movies d [] = movies d
   \<and> (x \<noteq> [] \<and> encodable x \<and> utf8_length x + 2 \<le> SQLITE_MAX_LIKE_PATTERN_LENGTH \<and> 0 \<notin> set x
        \<longrightarrow> search_movies d x =
              filter (\<lambda>m. \<exists>a mid b. sql_text (title m) = a @ mid @ b \<and> like (sql_text x) mid)
                (movies d))
   \<and> (37 \<notin> set x \<and> 95 \<notin> set x
        \<longrightarrow> like (sql_text x) mid = (map ascii_lower mid = map ascii_lower (sql_text x)))
   \<and> (x \<noteq> [] \<and> encodable x \<and> utf8_length x + 2 \<le> SQLITE_MAX_LIKE_PATTERN_LENGTH \<and> 0 \<in> set x
        \<longrightarrow> search_movies d x =
              filter (\<lambda>m. \<exists>a b. sql_text (title m) = a @ b \<and> like (sql_text x) b) (movies d))
   \<and> (x \<noteq> [] \<and> (\<not> encodable x \<or> SQLITE_MAX_LIKE_PATTERN_LENGTH < utf8_length x + 2)
        \<longrightarrow> search_movies d x = [])"
  using search_movies_empty [of d] search_movies_like [of x d] like_sql_text_literal [of x mid]
    search_movies_like_nul [of x d] search_movies_refused [of x d]
  by blast

theorem C1_search_like_witness:
  "u ''Incep'' \<noteq> [] \<and> encodable (u ''Incep'')
   \<and> utf8_length (u ''Incep'') + 2 \<le> SQLITE_MAX_LIKE_PATTERN_LENGTH
   \<and> 0 \<notin> set (u ''Incep'') \<and> 37 \<notin> set (u ''Incep'') \<and> 95 \<notin> set (u ''Incep'')
   \<and> search_movies inception_db (u ''Incep'') =
       filter (\<lambda>m. \<exists>a mid b. sql_text (title m) = a @ mid @ b \<and> like (sql_text (u ''Incep'')) mid)
         (movies inception_db)
   \<and> like (sql_text (u ''Incep'')) (u ''INCEP'')
   \<and> 37 \<notin> set [0xFFFF::nat] \<and> 95 \<notin> set [0xFFFF::nat]
   \<and> like (sql_text [0xFFFF]) (sql_text [0xFFFD]) \<and> like (sql_text [0xFFFF]) (sql_text [0xFFFE])
   \<and> \<not> encodable [0xD800] \<and> search_movies inception_db [0xD800] = []"
proof -
  have h: "u ''Incep'' \<noteq> [] \<and> encodable (u ''Incep'')
      \<and> utf8_length (u ''Incep'') + 2 \<le> SQLITE_MAX_LIKE_PATTERN_LENGTH
      \<and> 0 \<notin> set (u ''Incep'') \<and> 37 \<notin> set (u ''Incep'') \<and> 95 \<notin> set (u ''Incep'')"
    by (simp add: u_def encodable_def scalar_value_def utf8_length_def
        SQLITE_MAX_LIKE_PATTERN_LENGTH_def)
  have e: "map ascii_lower (u ''INCEP'') = map ascii_lower (sql_text (u ''Incep''))"
    by (simp add: u_def ascii_lower_def sql_text_def c_str_def utf8_read_def)
  have n: "37 \<notin> set [0xFFFF::nat] \<and> 95 \<notin> set [0xFFFF::nat]" by simp
  have r: "map ascii_lower (sql_text [0xFFFD]) = map ascii_lower (sql_text [0xFFFF])"
    "map ascii_lower (sql_text [0xFFFE]) = map ascii_lower (sql_text [0xFFFF])"
    by (simp_all add: ascii_lower_def sql_text_def c_str_def utf8_read_def)
  have s: "\<not> encodable [0xD800]"
    by (simp add: encodable_def scalar_value_def)
  have a: "search_movies inception_db (u ''Incep'') =
       filter (\<lambda>m. \<exists>a mid b. sql_text (title m) = a @ mid @ b \<and> like (sql_text (u ''Incep'')) mid)
         (movies inception_db)"
    using C1_search_like [of inception_db "u ''Incep''" "[]"] h by blast
  have b: "like (sql_text (u ''Incep'')) (u ''INCEP'')"
    using C1_search_like [of empty_db "u ''Incep''" "u ''INCEP''"] h e by blast
  have c: "like (sql_text [0xFFFF]) (sql_text [0xFFFD])"
    using C1_search_like [of empty_db "[0xFFFF]" "sql_text [0xFFFD]"] n r(1) by blast
  have d: "like (sql_text [0xFFFF]) (sql_text [0xFFFE])"
    using C1_search_like [of empty_db "[0xFFFF]" "sql_text [0xFFFE]"] n r(2) by blast
  have f: "search_movies inception_db [0xD800] = []"
    using C1_search_like [of inception_db "[0xD800]" "[]"] s by blast
  show ?thesis using h a b c d f n s by blast
qed

text \<open>
  The claim as it is written asks for case-sensitive containment. The store with the one
  record titled \<open>Inception\<close> refutes it: the filter \<open>incep\<close> is no substring of the
  title, yet the search returns the record.
\<close>

theorem C1_case_sensitive_counterexample:
  "search_movies inception_db (u ''incep'') = [inception]
   \<and> substring_search inception_db (u ''incep'') = []
   \<and> search_movies inception_db (u ''incep'') \<noteq> substring_search inception_db (u ''incep'')"
proof -
  have a: "search_movies inception_db (u ''incep'') = [inception]"
    by (simp add: search_movies_def inception_db_def inception_def u_def encodable_def
        scalar_value_def utf8_length_def SQLITE_MAX_LIKE_PATTERN_LENGTH_def sql_like_def
        sql_text_def utf8_read_def c_str_def ascii_lower_def)
  have b: "substring_search inception_db (u ''incep'') = []"
    by (simp add: substring_search_def inception_db_def inception_def u_def)
  show ?thesis using a b by simp
qed

section \<open>Single insert\<close>

lemma in_range_iff: "in_range r \<longleftrightarrow> (\<exists>q. r = Fin q \<and> 1 \<le> q \<and> q \<le> 10)"
  by (cases r) (simp_all add: in_range_def)

lemma in_range_not_NaN: "in_range r \<Longrightarrow> r \<noteq> NaN"
  by (auto simp add: in_range_def)

lemma bind_params_texts:
  assumes "encodable t" "encodable dr" "encodable g" "int64 y" "r \<noteq> NaN"
  shows "bind_params [PStr t, PStr dr, PStr g, PInt y, PFloat r]
         = Inr [SText t, SText dr, SText g, SInt y, SReal r]"
  using assms by simp

lemma sql_insert_typed:
  assumes "in_range r" "int64 (next_id d)"
  shows "sql_insert R d [SText t, SText dr, SText g, SInt y, SReal r]
         = Inr \<lparr>movies = movies d @
                  [\<lparr>movie_id = next_id d, title = t, director = dr, genre = g,
                    year = SInt y, rating = SReal r\<rparr>],
                sqlite_sequence = next_id d\<rparr>"
  using assms by (simp add: sql_insert_def store_year_def store_rating_def in_range_def)

lemma add_movie_accepts:
  assumes "py_int R (strip year_in) = Some y" "int64 y"
    and "py_float R (strip rating_in) = Some r"
    and "encodable (strip title_in)" "encodable (strip director_in)" "encodable (strip genre_in)"
    and "int64 (next_id d)" and "in_range r"
  shows "add_movie R d title_in director_in genre_in year_in rating_in =
          (\<lparr>movies = movies d @
               [\<lparr>movie_id = next_id d, title = strip title_in, director = strip director_in,
                 genre = strip genre_in, year = SInt y, rating = SReal r\<rparr>],
             sqlite_sequence = next_id d\<rparr>, MsgAdded)"
proof -
  have n: "r \<noteq> NaN" using assms(8) by (rule in_range_not_NaN)
  have "execute_insert R d [PStr (strip title_in), PStr (strip director_in),
           PStr (strip genre_in), PInt y, PFloat r] =
         Inr \<lparr>movies = movies d @
               [\<lparr>movie_id = next_id d, title = strip title_in, director = strip director_in,
                 genre = strip genre_in, year = SInt y, rating = SReal r\<rparr>],
             sqlite_sequence = next_id d\<rparr>"
    unfolding execute_insert_def
    by (simp only: bind_params_texts [OF assms(4,5,6,2) n] sum.case
        sql_insert_typed [OF assms(8,7)])
  then show ?thesis
    using assms(1,3,8) by (simp add: add_movie_def)
qed

lemma add_movie_rejects:
  assumes "py_int R (strip year_in) = Some y"
    and "py_float R (strip rating_in) = Some r" "\<not> in_range r"
  shows "add_movie R d title_in director_in genre_in year_in rating_in = (d, MsgRatingRange)"
  using assms by (simp add: add_movie_def)

lemma grown_db_differs:
  "\<lparr>movies = movies d @ [m], sqlite_sequence = k\<rparr> \<noteq> d"
proof
  assume "\<lparr>movies = movies d @ [m], sqlite_sequence = k\<rparr> = d"
  then have "movies \<lparr>movies = movies d @ [m], sqlite_sequence = k\<rparr> = movies d" by simp
  then show False by simp
qed

text \<open>
  Claim C2. Let the year read as an integer that fits 64 bits, the three texts be
  encodable and the table have an id left, so that nothing but the rating decides.
  Then \<open>add_movie\<close> writes a new record exactly if the rating \<open>r\<close> satisfies
  \<open>1.0 <= r <= 10.0\<close>, that is, if \<open>r\<close> is a finite number between 1 and 10; otherwise
  it reports the rating as out of range and leaves the database as it was. The bounds 1.0
  and 10.0 are accepted; 0.99 and 10.01 (the doubles that Python reads) are rejected.
\<close>

theorem C2_add_movie_rating:
  assumes "py_int R (strip year_in) = Some y" "int64 y"
    and "py_float R (strip rating_in) = Some r"
    and "encodable (strip title_in)" "encodable (strip director_in)" "encodable (strip genre_in)"
    and "int64 (next_id d)"
  shows "(in_range r \<longrightarrow>
            add_movie R d title_in director_in genre_in year_in rating_in =
              (\<lparr>movies = movies d @
                   [\<lparr>movie_id = next_id d, title = strip title_in,
                     director = strip director_in, genre = strip genre_in,
                     year = SInt y, rating = SReal r\<rparr>],
                 sqlite_sequence = next_id d\<rparr>, MsgAdded))
       \<and> (\<not> in_range r \<longrightarrow>
            add_movie R d title_in director_in genre_in year_in rating_in = (d, MsgRatingRange))
       \<and> (fst (add_movie R d title_in director_in genre_in year_in rating_in) \<noteq> d) = in_range r
       \<and> in_range r = (\<exists>q. r = Fin q \<and> 1 \<le> q \<and> q \<le> 10)
       \<and> in_range (Fin 1) \<and> in_range (Fin 10)
       \<and> \<not> in_range (Fin (4458563631096791 / 4503599627370496))
       \<and> \<not> in_range (Fin (5635129033747333 / 562949953421312))"
proof -
  have a: "in_range r \<longrightarrow>
            add_movie R d title_in director_in genre_in year_in rating_in =
              (\<lparr>movies = movies d @
                   [\<lparr>movie_id = next_id d, title = strip title_in,
                     director = strip director_in, genre = strip genre_in,
                     year = SInt y, rating = SReal r\<rparr>],
                 sqlite_sequence = next_id d\<rparr>, MsgAdded)"
    using add_movie_accepts [OF assms] by blast
  have b: "\<not> in_range r \<longrightarrow>
            add_movie R d title_in director_in genre_in year_in rating_in = (d, MsgRatingRange)"
    using add_movie_rejects [OF assms(1,3)] by blast
  have c: "(fst (add_movie R d title_in director_in genre_in year_in rating_in) \<noteq> d) = in_range r"
  proof (cases "in_range r")
    case True
    then show ?thesis using a grown_db_differs by simp
  next
    case False
    then show ?thesis using b by simp
  qed
  have e: "in_range (Fin 1) \<and> in_range (Fin 10)
       \<and> \<not> in_range (Fin (4458563631096791 / 4503599627370496))
       \<and> \<not> in_range (Fin (5635129033747333 / 562949953421312))"
    by (simp add: in_range_def)
  show ?thesis using a b c e in_range_iff [of r] by blast
qed

theorem C2_add_movie_rating_witness:
  "py_int sample_runtime (strip (u ''2010'')) = Some 2010 \<and> int64 2010
   \<and> py_float sample_runtime (strip (u ''8.8'')) = Some float_8_8
   \<and> py_float sample_runtime (strip (u ''0.99'')) = Some (Fin (4458563631096791 / 4503599627370496))
   \<and> encodable (strip (u ''Inception'')) \<and> encodable (strip (u ''Nolan''))
   \<and> encodable (strip (u ''Sci-Fi'')) \<and> int64 (next_id empty_db)
   \<and> add_movie sample_runtime empty_db (u ''Inception'') (u ''Nolan'') (u ''Sci-Fi'')
        (u ''2010'') (u ''8.8'') = (inception_db, MsgAdded)
   \<and> add_movie sample_runtime empty_db (u ''Inception'') (u ''Nolan'') (u ''Sci-Fi'')
        (u ''2010'') (u ''0.99'') = (empty_db, MsgRatingRange)"
proof -
  have st: "strip (u ''2010'') = u ''2010''" "strip (u ''8.8'') = u ''8.8''"
    "strip (u ''0.99'') = u ''0.99''" "strip (u ''Inception'') = u ''Inception''"
    "strip (u ''Nolan'') = u ''Nolan''" "strip (u ''Sci-Fi'') = u ''Sci-Fi''"
    by (simp_all add: strip_def u_def isspace_def)
  have y: "py_int sample_runtime (strip (u ''2010'')) = Some 2010" "int64 2010"
    unfolding st by (simp_all add: sample_runtime_def sample_int_def u_def int64_def)
  have r1: "py_float sample_runtime (strip (u ''8.8'')) = Some float_8_8"
    unfolding st by (simp add: sample_runtime_def sample_float_def u_def)
  have r2: "py_float sample_runtime (strip (u ''0.99'')) =
              Some (Fin (4458563631096791 / 4503599627370496))"
    unfolding st by (simp add: sample_runtime_def sample_float_def u_def)
  have e: "encodable (strip (u ''Inception''))" "encodable (strip (u ''Nolan''))"
    "encodable (strip (u ''Sci-Fi''))"
    unfolding st by (simp_all add: encodable_def u_def scalar_value_def)
  have n: "int64 (next_id empty_db)" "next_id empty_db = 1"
    by (simp_all add: next_id_def empty_db_def int64_def)
  have i: "in_range float_8_8"
    by (simp add: in_range_def float_8_8_def)
  have o: "\<not> in_range (Fin (4458563631096791 / 4503599627370496))"
    by (simp add: in_range_def)
  have a: "add_movie sample_runtime empty_db (u ''Inception'') (u ''Nolan'') (u ''Sci-Fi'')
        (u ''2010'') (u ''8.8'') = (inception_db, MsgAdded)"
    using C2_add_movie_rating [OF y r1 e n(1)] i
    unfolding st n(2) by (simp add: inception_db_def inception_def empty_db_def)
  have b: "add_movie sample_runtime empty_db (u ''Inception'') (u ''Nolan'') (u ''Sci-Fi'')
        (u ''2010'') (u ''0.99'') = (empty_db, MsgRatingRange)"
    using C2_add_movie_rating [OF y r2 e n(1)] o by blast
  show ?thesis using y r1 r2 e n(1) a b by blast
qed

section \<open>Update and delete\<close>

lemma assign_frame:
  assumes "assign R (c, v) m = Inr m'"
  shows "movie_id m' = movie_id m
       \<and> (c \<noteq> Title \<longrightarrow> title m' = title m)
       \<and> (c \<noteq> Director \<longrightarrow> director m' = director m)
       \<and> (c \<noteq> Genre \<longrightarrow> genre m' = genre m)
       \<and> (c \<noteq> Year \<longrightarrow> year m' = year m)
       \<and> (c \<noteq> Rating \<longrightarrow> rating m' = rating m)"
  using assms by (cases c) (auto split: sum.splits)

lemma assign_all_frame:
  assumes "assign_all R sets m = Inr m'"
  shows "movie_id m' = movie_id m
       \<and> (Title \<notin> fst ` set sets \<longrightarrow> title m' = title m)
       \<and> (Director \<notin> fst ` set sets \<longrightarrow> director m' = director m)
       \<and> (Genre \<notin> fst ` set sets \<longrightarrow> genre m' = genre m)
       \<and> (Year \<notin> fst ` set sets \<longrightarrow> year m' = year m)
       \<and> (Rating \<notin> fst ` set sets \<longrightarrow> rating m' = rating m)"
  using assms
proof (induction sets arbitrary: m)
  case Nil
  then show ?case by simp
next
  case (Cons a sets)
  obtain c v where a: "a = (c, v)" by (cases a)
  from Cons.prems obtain m1 where m1: "assign R (c, v) m = Inr m1" "assign_all R sets m1 = Inr m'"
    by (auto simp add: a split: sum.splits)
  note f1 = assign_frame [OF m1(1)]
  note f2 = Cons.IH [OF m1(2)]
  show ?case using f1 f2 by (auto simp add: a)
qed

lemma update_rows_frame:
  assumes "update_rows R sets k ms = Inr ms'"
  shows "list_all2 (\<lambda>m m'. if SInt (movie_id m) = k then assign_all R sets m = Inr m' else m' = m)
           ms ms'"
  using assms
proof (induction ms arbitrary: ms')
  case Nil
  then show ?case by simp
next
  case (Cons m ms)
  from Cons.prems obtain m1 ms1 where
    s: "(if SInt (movie_id m) = k then assign_all R sets m else Inr m) = Inr m1"
       "update_rows R sets k ms = Inr ms1" "ms' = m1 # ms1"
    by (auto split: sum.splits)
  have "if SInt (movie_id m) = k then assign_all R sets m = Inr m1 else m1 = m"
    using s(1) by (auto split: if_splits)
  then show ?case using Cons.IH [OF s(2)] s(3) by simp
qed

lemma bind_params_zip:
  assumes "bind_params (map snd uf) = Inr vs"
  shows "length vs = length uf
       \<and> fst ` set (zip (map fst uf) vs) = fst ` set uf
       \<and> (\<forall>c v. (c, v) \<in> set (zip (map fst uf) vs) \<longrightarrow>
             (\<exists>p. (c, p) \<in> set uf \<and> bind_param p = Inr v))"
  using assms
proof (induction uf arbitrary: vs)
  case Nil
  then show ?case by simp
next
  case (Cons a uf)
  obtain c0 p0 where a: "a = (c0, p0)" by (cases a)
  from Cons.prems obtain v vs1 where
    s: "bind_param p0 = Inr v" "bind_params (map snd uf) = Inr vs1" "vs = v # vs1"
    by (auto simp add: a split: sum.splits)
  note ih = Cons.IH [OF s(2)]
  have l: "length vs = length (a # uf)" using ih s(3) by simp
  have f: "fst ` set (zip (map fst (a # uf)) vs) = fst ` set (a # uf)"
    using ih s(3) by (simp add: a)
  have b: "\<forall>c v. (c, v) \<in> set (zip (map fst (a # uf)) vs) \<longrightarrow>
             (\<exists>p. (c, p) \<in> set (a # uf) \<and> bind_param p = Inr v)"
  proof (intro allI impI)
    fix c w
    assume "(c, w) \<in> set (zip (map fst (a # uf)) vs)"
    then have "(c, w) = (c0, v) \<or> (c, w) \<in> set (zip (map fst uf) vs1)"
      by (simp add: a s(3))
    then show "\<exists>p. (c, p) \<in> set (a # uf) \<and> bind_param p = Inr w"
    proof
      assume "(c, w) = (c0, v)"
      then show ?thesis using s(1) a by auto
    next
      assume "(c, w) \<in> set (zip (map fst uf) vs1)"
      then obtain p where "(c, p) \<in> set uf \<and> bind_param p = Inr w" using ih by blast
      then show ?thesis by auto
    qed
  qed
  show ?case using l f b by blast
qed

lemma text_field_columns:
  "fst ` set (text_field c s) = (if s = [] then {} else {c})"
  "(c', p) \<in> set (text_field c s) \<Longrightarrow> c' = c \<and> p = PStr s \<and> s \<noteq> []"
  by (auto simp add: text_field_def split: if_splits)

lemma year_field_columns:
  assumes "year_field R s = Inr fy"
  shows "fst ` set fy = (if s = [] then {} else {Year})"
    and "(c', p) \<in> set fy \<Longrightarrow> c' = Year \<and> (\<exists>y. py_int R s = Some y \<and> p = PInt y)"
  using assms by (auto simp add: year_field_def split: if_splits option.splits)

lemma rating_field_columns:
  assumes "rating_field R s = Inr fr"
  shows "fst ` set fr = (if s = [] then {} else {Rating})"
    and "(c', p) \<in> set fr \<Longrightarrow>
           c' = Rating \<and> (\<exists>r. py_float R s = Some r \<and> in_range r \<and> p = PFloat r)"
  using assms by (auto simp add: rating_field_def split: if_splits option.splits)

lemma update_request_columns:
  assumes "update_request R nt nd ng ny nr = Inr uf"
  shows "(Title \<in> fst ` set uf) = (nt \<noteq> [])"
    and "(Director \<in> fst ` set uf) = (nd \<noteq> [])"
    and "(Genre \<in> fst ` set uf) = (ng \<noteq> [])"
    and "(Year \<in> fst ` set uf) = (ny \<noteq> [])"
    and "(Rating \<in> fst ` set uf) = (nr \<noteq> [])"
proof -
  from assms obtain fy fr where
    f: "year_field R ny = Inr fy" "rating_field R nr = Inr fr"
       "uf = text_field Title nt @ text_field Director nd @ text_field Genre ng @ fy @ fr"
    by (auto simp add: update_request_def split: sum.splits)
  have s: "fst ` set uf =
             fst ` set (text_field Title nt) \<union> fst ` set (text_field Director nd)
           \<union> fst ` set (text_field Genre ng) \<union> fst ` set fy \<union> fst ` set fr"
    by (simp add: f(3) image_Un Un_assoc)
  show "(Title \<in> fst ` set uf) = (nt \<noteq> [])"
    and "(Director \<in> fst ` set uf) = (nd \<noteq> [])"
    and "(Genre \<in> fst ` set uf) = (ng \<noteq> [])"
    and "(Year \<in> fst ` set uf) = (ny \<noteq> [])"
    and "(Rating \<in> fst ` set uf) = (nr \<noteq> [])"
    unfolding s text_field_columns(1) year_field_columns(1) [OF f(1)]
      rating_field_columns(1) [OF f(2)]
    by simp_all
qed

lemma update_request_empty:
  assumes "nt = []" "nd = []" "ng = []" "ny = []" "nr = []"
  shows "update_request R nt nd ng ny nr = Inr []"
  using assms
  by (simp add: update_request_def year_field_def rating_field_def text_field_def)

lemma update_request_message:
  "update_request R nt nd ng ny nr = Inl msg \<Longrightarrow> msg \<noteq> MsgModified"
  by (auto simp add: update_request_def year_field_def rating_field_def
      split: sum.splits if_splits option.splits)

lemma modify_movie_effect:
  assumes "modify_movie R d ti nt nd ng ny nr = (d', msg)"
  shows "(d' = d \<and> msg \<noteq> MsgModified) \<or>
         (\<exists>target rest uf vs ms'.
            search_movies d (strip ti) = target # rest
          \<and> update_request R (strip nt) (strip nd) (strip ng) (strip ny) (strip nr) = Inr uf
          \<and> bind_params (map snd uf) = Inr vs
          \<and> update_rows R (zip (map fst uf) vs) (SInt (movie_id target)) (movies d) = Inr ms'
          \<and> d' = d\<lparr>movies := ms'\<rparr> \<and> msg = MsgModified)"
proof (cases "search_movies d (strip ti)")
  case Nil
  then show ?thesis using assms by (auto simp add: modify_movie_def)
next
  case (Cons target rest)
  show ?thesis
  proof (cases "update_request R (strip nt) (strip nd) (strip ng) (strip ny) (strip nr)")
    case (Inl m)
    then show ?thesis
      using assms Cons update_request_message [OF Inl] by (auto simp add: modify_movie_def)
  next
    case (Inr uf)
    show ?thesis
    proof (cases "execute_update R d uf (PInt (movie_id target))")
      case (Inl e)
      then show ?thesis
        using assms Cons Inr by (auto simp add: modify_movie_def split: if_splits)
    next
      case r: (Inr d1)
      show ?thesis
      proof (cases "uf = []")
        case True
        then show ?thesis using assms Cons Inr by (auto simp add: modify_movie_def)
      next
        case False
        then have e: "d' = d1" "msg = MsgModified"
          using assms Cons Inr r by (simp_all add: modify_movie_def)
        from r obtain vs ms' where
          "bind_params (map snd uf) = Inr vs"
          "update_rows R (zip (map fst uf) vs) (SInt (movie_id target)) (movies d) = Inr ms'"
          "d1 = d\<lparr>movies := ms'\<rparr>"
          by (auto simp add: execute_update_def split: sum.splits if_splits)
        then show ?thesis using Cons Inr e by blast
      qed
    qed
  qed
qed

text \<open>
  Claim C6. When all five new values are empty after \<open>strip()\<close>, \<open>modify_movie\<close>
  executes no UPDATE: the database it returns is the database it was given, and the
  message is the one for "nothing changed" whenever the title filter found a record
  (the one for "no data" otherwise).
\<close>

theorem C6_empty_update_is_noop:
  assumes "strip new_title_in = []" "strip new_director_in = []" "strip new_genre_in = []"
    and "strip new_year_in = []" "strip new_rating_in = []"
  shows "modify_movie R d title_in new_title_in new_director_in new_genre_in new_year_in
           new_rating_in =
         (d, if search_movies d (strip title_in) = [] then MsgNoData else MsgNoChange)"
  using assms
  by (simp add: modify_movie_def update_request_empty split: list.splits)

lemma modify_movie_rows:
  assumes "modify_movie R d ti nt nd ng ny nr = (d', msg)"
  shows "sqlite_sequence d' = sqlite_sequence d \<and>
         list_all2 (\<lambda>m m'. movie_id m' = movie_id m
             \<and> (strip nt = [] \<longrightarrow> title m' = title m)
             \<and> (strip nd = [] \<longrightarrow> director m' = director m)
             \<and> (strip ng = [] \<longrightarrow> genre m' = genre m)
             \<and> (strip ny = [] \<longrightarrow> year m' = year m)
             \<and> (strip nr = [] \<longrightarrow> rating m' = rating m)
             \<and> (movie_id m \<noteq> movie_id (hd (search_movies d (strip ti))) \<longrightarrow> m' = m))
           (movies d) (movies d')"
proof -
  from modify_movie_effect [OF assms]
  show ?thesis
  proof
    assume "d' = d \<and> msg \<noteq> MsgModified"
    then show ?thesis by (simp add: list_all2_same)
  next
    assume "\<exists>target rest uf vs ms'.
            search_movies d (strip ti) = target # rest
          \<and> update_request R (strip nt) (strip nd) (strip ng) (strip ny) (strip nr) = Inr uf
          \<and> bind_params (map snd uf) = Inr vs
          \<and> update_rows R (zip (map fst uf) vs) (SInt (movie_id target)) (movies d) = Inr ms'
          \<and> d' = d\<lparr>movies := ms'\<rparr> \<and> msg = MsgModified"
    then obtain target rest uf vs ms' where
      e: "search_movies d (strip ti) = target # rest"
         "update_request R (strip nt) (strip nd) (strip ng) (strip ny) (strip nr) = Inr uf"
         "bind_params (map snd uf) = Inr vs"
         "update_rows R (zip (map fst uf) vs) (SInt (movie_id target)) (movies d) = Inr ms'"
         "d' = d\<lparr>movies := ms'\<rparr>"
      by blast
    note cols = update_request_columns [OF e(2)]
    have z: "fst ` set (zip (map fst uf) vs) = fst ` set uf"
      using bind_params_zip [OF e(3)] by blast
    have "list_all2 (\<lambda>m m'. movie_id m' = movie_id m
             \<and> (strip nt = [] \<longrightarrow> title m' = title m)
             \<and> (strip nd = [] \<longrightarrow> director m' = director m)
             \<and> (strip ng = [] \<longrightarrow> genre m' = genre m)
             \<and> (strip ny = [] \<longrightarrow> year m' = year m)
             \<and> (strip nr = [] \<longrightarrow> rating m' = rating m)
             \<and> (movie_id m \<noteq> movie_id target \<longrightarrow> m' = m))
           (movies d) ms'"
    proof (rule list_all2_mono [OF update_rows_frame [OF e(4)]])
      fix m m'
      assume h: "if SInt (movie_id m) = SInt (movie_id target)
                 then assign_all R (zip (map fst uf) vs) m = Inr m' else m' = m"
      show "movie_id m' = movie_id m
             \<and> (strip nt = [] \<longrightarrow> title m' = title m)
             \<and> (strip nd = [] \<longrightarrow> director m' = director m)
             \<and> (strip ng = [] \<longrightarrow> genre m' = genre m)
             \<and> (strip ny = [] \<longrightarrow> year m' = year m)
             \<and> (strip nr = [] \<longrightarrow> rating m' = rating m)
             \<and> (movie_id m \<noteq> movie_id target \<longrightarrow> m' = m)"
      proof (cases "movie_id m = movie_id target")
        case True
        then have "assign_all R (zip (map fst uf) vs) m = Inr m'" using h by simp
        from assign_all_frame [OF this] show ?thesis
          unfolding z using cols True by simp
      next
        case False
        then show ?thesis using h by simp
      qed
    qed
    then show ?thesis using e(1,5) by simp
  qed
qed

theorem C6_empty_update_is_noop_witness:
  "strip [] = [] \<and> search_movies inception_db (strip (u ''Incep'')) \<noteq> []
   \<and> modify_movie sample_runtime inception_db (u ''Incep'') [] [] [] [] []
       = (inception_db, MsgNoChange)"
proof -
  have e: "strip [] = []" by (simp add: strip_def)
  have s: "strip (u ''Incep'') = u ''Incep''" by (simp add: strip_def u_def isspace_def)
  have n: "search_movies inception_db (strip (u ''Incep'')) \<noteq> []"
    unfolding s
    by (simp add: search_movies_def inception_db_def inception_def u_def encodable_def
        scalar_value_def utf8_length_def SQLITE_MAX_LIKE_PATTERN_LENGTH_def sql_like_def
        sql_text_def utf8_read_def c_str_def ascii_lower_def)
  show ?thesis
    using C6_empty_update_is_noop [OF e e e e e, of sample_runtime inception_db "u ''Incep''"] e n
    by simp
qed

text \<open>
  Claim C4. Whatever \<open>modify_movie\<close> is given, the table keeps its records in place and
  their ids; in every record each field whose new value was left empty keeps its prior
  value; and every record whose id is not the id of the targeted record (the first match
  of the title filter) is unchanged altogether.
\<close>

theorem C4_partial_update_frame:
  assumes "modify_movie R d title_in new_title_in new_director_in new_genre_in new_year_in
             new_rating_in = (d', msg)"
  shows "length (movies d') = length (movies d)
       \<and> (\<forall>i < length (movies d).
             movie_id (movies d' ! i) = movie_id (movies d ! i)
           \<and> (strip new_title_in = [] \<longrightarrow> title (movies d' ! i) = title (movies d ! i))
           \<and> (strip new_director_in = [] \<longrightarrow> director (movies d' ! i) = director (movies d ! i))
           \<and> (strip new_genre_in = [] \<longrightarrow> genre (movies d' ! i) = genre (movies d ! i))
           \<and> (strip new_year_in = [] \<longrightarrow> year (movies d' ! i) = year (movies d ! i))
           \<and> (strip new_rating_in = [] \<longrightarrow> rating (movies d' ! i) = rating (movies d ! i))
           \<and> (movie_id (movies d ! i) \<noteq> movie_id (hd (search_movies d (strip title_in)))
                \<longrightarrow> movies d' ! i = movies d ! i))"
  using modify_movie_rows [OF assms] by (simp add: list_all2_conv_all_nth)

lemma sample_strip:
  "strip [] = []" "strip (u ''Incep'') = u ''Incep''" "strip (u ''9.0'') = u ''9.0''"
  "strip (u ''In'') = u ''In''"
  by (simp_all add: strip_def u_def isspace_def)

lemma modify_inception:
  "modify_movie sample_runtime inception_db (u ''Incep'') [] [] [] [] (u ''9.0'')
     = (\<lparr>movies = [inception\<lparr>rating := SReal (Fin 9)\<rparr>], sqlite_sequence = 1\<rparr>, MsgModified)"
  unfolding modify_movie_def sample_strip
  by (simp add: search_movies_def inception_db_def inception_def u_def encodable_def
        scalar_value_def utf8_length_def SQLITE_MAX_LIKE_PATTERN_LENGTH_def sql_like_def
        sql_text_def utf8_read_def c_str_def ascii_lower_def update_request_def year_field_def rating_field_def
        text_field_def sample_runtime_def sample_float_def in_range_def execute_update_def
        int64_def store_rating_def)

theorem C4_partial_update_frame_witness:
  "strip [] = [] \<and> (0::nat) < length (movies inception_db)
   \<and> modify_movie sample_runtime inception_db (u ''Incep'') [] [] [] [] (u ''9.0'')
       = (\<lparr>movies = [inception\<lparr>rating := SReal (Fin 9)\<rparr>], sqlite_sequence = 1\<rparr>, MsgModified)
   \<and> title (inception\<lparr>rating := SReal (Fin 9)\<rparr>) = title (movies inception_db ! 0)
   \<and> director (inception\<lparr>rating := SReal (Fin 9)\<rparr>) = director (movies inception_db ! 0)
   \<and> genre (inception\<lparr>rating := SReal (Fin 9)\<rparr>) = genre (movies inception_db ! 0)
   \<and> year (inception\<lparr>rating := SReal (Fin 9)\<rparr>) = year (movies inception_db ! 0)
   \<and> rating (inception\<lparr>rating := SReal (Fin 9)\<rparr>) \<noteq> rating (movies inception_db ! 0)"
proof -
  have l: "(0::nat) < length (movies inception_db)" by (simp add: inception_db_def)
  have r: "rating (inception\<lparr>rating := SReal (Fin 9)\<rparr>) \<noteq> rating (movies inception_db ! 0)"
    by (simp add: inception_db_def inception_def float_8_8_def)
  have f: "\<forall>i < length (movies inception_db).
             (strip [] = [] \<longrightarrow> title ([inception\<lparr>rating := SReal (Fin 9)\<rparr>] ! i)
                 = title (movies inception_db ! i))
           \<and> (strip [] = [] \<longrightarrow> director ([inception\<lparr>rating := SReal (Fin 9)\<rparr>] ! i)
                 = director (movies inception_db ! i))
           \<and> (strip [] = [] \<longrightarrow> genre ([inception\<lparr>rating := SReal (Fin 9)\<rparr>] ! i)
                 = genre (movies inception_db ! i))
           \<and> (strip [] = [] \<longrightarrow> year ([inception\<lparr>rating := SReal (Fin 9)\<rparr>] ! i)
                 = year (movies inception_db ! i))"
    using C4_partial_update_frame [OF modify_inception] by simp
  have g: "title ([inception\<lparr>rating := SReal (Fin 9)\<rparr>] ! 0) = title (movies inception_db ! 0)
         \<and> director ([inception\<lparr>rating := SReal (Fin 9)\<rparr>] ! 0) = director (movies inception_db ! 0)
         \<and> genre ([inception\<lparr>rating := SReal (Fin 9)\<rparr>] ! 0) = genre (movies inception_db ! 0)
         \<and> year ([inception\<lparr>rating := SReal (Fin 9)\<rparr>] ! 0) = year (movies inception_db ! 0)"
    using f l sample_strip(1) by blast
  show ?thesis
    using g l r sample_strip(1) modify_inception by simp
qed

lemma search_movies_subset: "set (search_movies d x) \<subseteq> set (movies d)"
  using search_movies_filter [of d x] by auto

lemma search_movies_distinct:
  assumes "distinct (map movie_id (movies d))"
  shows "distinct (map movie_id (search_movies d x))"
proof -
  obtain P where "search_movies d x = filter P (movies d)"
    using search_movies_filter [of d x] by blast
  then show ?thesis using assms by (simp add: distinct_map_filter)
qed

lemma same_id_same_row:
  assumes "distinct (map movie_id ms)" "a \<in> set ms" "b \<in> set ms" "movie_id a = movie_id b"
  shows "a = b"
  using assms by (meson distinct_map inj_onD)

lemma assign_stores:
  assumes "assign R (c, v) m = Inr m'"
  shows "(c = Title \<longrightarrow> store_text R v = Inr (title m'))
       \<and> (c = Director \<longrightarrow> store_text R v = Inr (director m'))
       \<and> (c = Genre \<longrightarrow> store_text R v = Inr (genre m'))
       \<and> (c = Year \<longrightarrow> store_year R v = Inr (year m'))
       \<and> (c = Rating \<longrightarrow> store_rating R v = Inr (rating m'))"
  using assms by (cases c) (auto split: sum.splits simp del: store_text.simps)

text \<open>
  With one assignment per column, the row that \<open>SET\<close> produces holds in each assigned
  column the value that the column stores for the bound value.
\<close>

lemma assign_all_stores:
  assumes "assign_all R sets m = Inr m'" "distinct (map fst sets)" "(c, v) \<in> set sets"
  shows "(c = Title \<longrightarrow> store_text R v = Inr (title m'))
       \<and> (c = Director \<longrightarrow> store_text R v = Inr (director m'))
       \<and> (c = Genre \<longrightarrow> store_text R v = Inr (genre m'))
       \<and> (c = Year \<longrightarrow> store_year R v = Inr (year m'))
       \<and> (c = Rating \<longrightarrow> store_rating R v = Inr (rating m'))"
  using assms
proof (induction sets arbitrary: m)
  case Nil
  then show ?case by simp
next
  case (Cons a sets)
  obtain c0 v0 where a: "a = (c0, v0)" by (cases a)
  from Cons.prems(1) obtain m1 where
    m1: "assign R (c0, v0) m = Inr m1" "assign_all R sets m1 = Inr m'"
    by (auto simp add: a split: sum.splits)
  have d: "c0 \<notin> fst ` set sets" "distinct (map fst sets)"
    using Cons.prems(2) by (simp_all add: a)
  show ?case
  proof (cases "(c, v) = (c0, v0)")
    case True
    then have e: "c = c0" "v = v0" by simp_all
    note s = assign_stores [OF m1(1)]
    note f = assign_all_frame [OF m1(2)]
    show ?thesis using s f d(1) unfolding e by (cases c0) simp_all
  next
    case False
    then have "(c, v) \<in> set sets" using Cons.prems(3) a by auto
    from Cons.IH [OF m1(2) d(2) this] show ?thesis .
  qed
qed

lemma update_request_distinct:
  assumes "update_request R nt nd ng ny nr = Inr uf"
  shows "distinct (map fst uf)"
  using assms
  by (auto simp add: update_request_def text_field_def year_field_def rating_field_def
      split: sum.splits if_splits option.splits)

lemma update_request_members:
  assumes "update_request R nt nd ng ny nr = Inr uf" "(c, p) \<in> set uf"
  shows "(c = Title \<longrightarrow> p = PStr nt)
       \<and> (c = Director \<longrightarrow> p = PStr nd)
       \<and> (c = Genre \<longrightarrow> p = PStr ng)
       \<and> (c = Year \<longrightarrow> (\<exists>y. py_int R ny = Some y \<and> p = PInt y))
       \<and> (c = Rating \<longrightarrow> (\<exists>r. py_float R nr = Some r \<and> in_range r \<and> p = PFloat r))"
  using assms
  by (auto simp add: update_request_def text_field_def year_field_def rating_field_def
      split: sum.splits if_splits option.splits)

lemma in_range_bind: "in_range r \<Longrightarrow> bind_param (PFloat r) = Inr (SReal r)"
  by (cases r) (simp_all add: in_range_def)

lemma store_rating_in_range: "in_range r \<Longrightarrow> store_rating R (SReal r) = Inr (SReal r)"
  by (simp add: store_rating_def in_range_def)

text \<open>
  The row that an update writes: each requested column holds the requested value, each
  other column its old value.
\<close>

lemma modified_fields:
  assumes u: "update_request R nt nd ng ny nr = Inr uf"
    and b: "bind_params (map snd uf) = Inr vs"
    and a: "assign_all R (zip (map fst uf) vs) m = Inr m'"
  shows "movie_id m' = movie_id m"
    and "title m' = (if nt = [] then title m else nt)"
    and "director m' = (if nd = [] then director m else nd)"
    and "genre m' = (if ng = [] then genre m else ng)"
    and "year m' = (if ny = [] then year m
                    else case py_int R ny of Some y \<Rightarrow> SInt y | None \<Rightarrow> year m)"
    and "rating m' = (if nr = [] then rating m
                      else case py_float R nr of Some r \<Rightarrow> SReal r | None \<Rightarrow> rating m)"
proof -
  note z = bind_params_zip [OF b]
  note cols = update_request_columns [OF u]
  note fr = assign_all_frame [OF a, unfolded z [THEN conjunct2, THEN conjunct1]]
  have len: "length vs = length uf" using z by blast
  have dz: "distinct (map fst (zip (map fst uf) vs))"
    using update_request_distinct [OF u] len by (simp add: map_fst_zip)
  have hit: "\<exists>v p. (c, v) \<in> set (zip (map fst uf) vs) \<and> (c, p) \<in> set uf \<and> bind_param p = Inr v"
    if "c \<in> fst ` set uf" for c
  proof -
    from that have "c \<in> fst ` set (zip (map fst uf) vs)" using z by blast
    then obtain v where v: "(c, v) \<in> set (zip (map fst uf) vs)" by force
    then obtain p where "(c, p) \<in> set uf \<and> bind_param p = Inr v" using z by blast
    with v show ?thesis by blast
  qed
  show "movie_id m' = movie_id m" using fr by blast
  show "title m' = (if nt = [] then title m else nt)"
  proof (cases "nt = []")
    case True
    then show ?thesis using fr cols(1) by simp
  next
    case False
    then obtain v p where h: "(Title, v) \<in> set (zip (map fst uf) vs)" "(Title, p) \<in> set uf"
      "bind_param p = Inr v" using hit [of Title] cols(1) by blast
    have "p = PStr nt" using update_request_members [OF u h(2)] by simp
    then have "v = SText nt" using h(3) by (simp split: if_splits)
    then show ?thesis using assign_all_stores [OF a dz h(1)] False by simp
  qed
  show "director m' = (if nd = [] then director m else nd)"
  proof (cases "nd = []")
    case True
    then show ?thesis using fr cols(2) by simp
  next
    case False
    then obtain v p where h: "(Director, v) \<in> set (zip (map fst uf) vs)" "(Director, p) \<in> set uf"
      "bind_param p = Inr v" using hit [of Director] cols(2) by blast
    have "p = PStr nd" using update_request_members [OF u h(2)] by simp
    then have "v = SText nd" using h(3) by (simp split: if_splits)
    then show ?thesis using assign_all_stores [OF a dz h(1)] False by simp
  qed
  show "genre m' = (if ng = [] then genre m else ng)"
  proof (cases "ng = []")
    case True
    then show ?thesis using fr cols(3) by simp
  next
    case False
    then obtain v p where h: "(Genre, v) \<in> set (zip (map fst uf) vs)" "(Genre, p) \<in> set uf"
      "bind_param p = Inr v" using hit [of Genre] cols(3) by blast
    have "p = PStr ng" using update_request_members [OF u h(2)] by simp
    then have "v = SText ng" using h(3) by (simp split: if_splits)
    then show ?thesis using assign_all_stores [OF a dz h(1)] False by simp
  qed
  show "year m' = (if ny = [] then year m
                    else case py_int R ny of Some y \<Rightarrow> SInt y | None \<Rightarrow> year m)"
  proof (cases "ny = []")
    case True
    then show ?thesis using fr cols(4) by simp
  next
    case False
    then obtain v p where h: "(Year, v) \<in> set (zip (map fst uf) vs)" "(Year, p) \<in> set uf"
      "bind_param p = Inr v" using hit [of Year] cols(4) by blast
    obtain y where y: "py_int R ny = Some y" "p = PInt y"
      using update_request_members [OF u h(2)] by auto
    then have "v = SInt y" using h(3) by (simp split: if_splits)
    then have "store_year R (SInt y) = Inr (year m')"
      using assign_all_stores [OF a dz h(1)] by simp
    then show ?thesis using False y(1) by (simp add: store_year_def)
  qed
  show "rating m' = (if nr = [] then rating m
                      else case py_float R nr of Some r \<Rightarrow> SReal r | None \<Rightarrow> rating m)"
  proof (cases "nr = []")
    case True
    then show ?thesis using fr cols(5) by simp
  next
    case False
    then obtain v p where h: "(Rating, v) \<in> set (zip (map fst uf) vs)" "(Rating, p) \<in> set uf"
      "bind_param p = Inr v" using hit [of Rating] cols(5) by blast
    obtain r where r: "py_float R nr = Some r" "in_range r" "p = PFloat r"
      using update_request_members [OF u h(2)] by auto
    then have "v = SReal r" using h(3) in_range_bind [OF r(2)] by simp
    then have "store_rating R (SReal r) = Inr (rating m')"
      using assign_all_stores [OF a dz h(1)] by simp
    then show ?thesis using False r(1) store_rating_in_range [OF r(2), of R] by simp
  qed
qed


text \<open>When does the statement succeed: the values bind and every column accepts its value.\<close>

lemma bind_params_succeeds:
  assumes "\<forall>p \<in> set ps. \<exists>v. bind_param p = Inr v"
  shows "\<exists>vs. bind_params ps = Inr vs"
  using assms by (induction ps) auto

lemma assign_succeeds:
  assumes "accepted (c, v)"
  shows "\<exists>m'. assign R (c, v) m = Inr m'"
  using assms by (cases c) (auto simp add: store_year_def store_rating_in_range)

lemma assign_all_succeeds:
  assumes "\<forall>a \<in> set sets. accepted a"
  shows "\<exists>m'. assign_all R sets m = Inr m'"
  using assms
proof (induction sets arbitrary: m)
  case Nil
  then show ?case by simp
next
  case (Cons a sets)
  obtain c v where a: "a = (c, v)" by (cases a)
  have "accepted (c, v)" using Cons.prems a by simp
  then obtain m1 where m1: "assign R (c, v) m = Inr m1" using assign_succeeds by blast
  obtain m' where "assign_all R sets m1 = Inr m'" using Cons.IH [of m1] Cons.prems by auto
  then show ?case using m1 a by simp
qed

lemma update_rows_succeeds:
  assumes "\<forall>a \<in> set sets. accepted a"
  shows "\<exists>ms'. update_rows R sets k ms = Inr ms'"
proof (induction ms)
  case Nil
  show ?case by simp
next
  case (Cons m ms)
  obtain m' where m': "assign_all R sets m = Inr m'" using assign_all_succeeds [OF assms] by blast
  from Cons obtain ms' where "update_rows R sets k ms = Inr ms'" by blast
  then show ?case using m' by simp
qed

lemma modify_movie_succeeds:
  assumes s: "search_movies d (strip ti) = first # others"
    and n: "strip nt \<noteq> [] \<or> strip nd \<noteq> [] \<or> strip ng \<noteq> [] \<or> strip ny \<noteq> [] \<or> strip nr \<noteq> []"
    and e: "encodable (strip nt)" "encodable (strip nd)" "encodable (strip ng)"
    and y: "strip ny = [] \<or> (\<exists>y. py_int R (strip ny) = Some y \<and> int64 y)"
    and r: "strip nr = [] \<or> (\<exists>r. py_float R (strip nr) = Some r \<and> in_range r)"
    and k: "int64 (movie_id first)"
  shows "snd (modify_movie R d ti nt nd ng ny nr) = MsgModified"
proof -
  have "\<exists>fy. year_field R (strip ny) = Inr fy"
    using y by (auto simp add: year_field_def)
  then obtain fy where fy: "year_field R (strip ny) = Inr fy" by blast
  have "\<exists>fr. rating_field R (strip nr) = Inr fr"
    using r by (auto simp add: rating_field_def)
  then obtain fr where fr: "rating_field R (strip nr) = Inr fr" by blast
  define uf where "uf = text_field Title (strip nt) @ text_field Director (strip nd)
             @ text_field Genre (strip ng) @ fy @ fr"
  have u: "update_request R (strip nt) (strip nd) (strip ng) (strip ny) (strip nr) = Inr uf"
    by (simp add: update_request_def fy fr uf_def)
  have ne: "uf \<noteq> []"
    using update_request_columns [OF u] n by auto
  have bp: "\<forall>p \<in> set (map snd uf). \<exists>v. bind_param p = Inr v"
  proof
    fix p assume "p \<in> set (map snd uf)"
    then obtain c where cp: "(c, p) \<in> set uf" by auto
    note m = update_request_members [OF u cp]
    show "\<exists>v. bind_param p = Inr v"
    proof (cases c)
      case Title then show ?thesis using m e(1) by simp
    next
      case Director then show ?thesis using m e(2) by simp
    next
      case Genre then show ?thesis using m e(3) by simp
    next
      case Year
      then obtain y0 where "py_int R (strip ny) = Some y0" "p = PInt y0" using m by auto
      moreover have "strip ny \<noteq> []" using update_request_columns(4) [OF u] cp Year by force
      ultimately show ?thesis using y by auto
    next
      case Rating
      then obtain r0 where "in_range r0" "p = PFloat r0" using m by auto
      then show ?thesis using in_range_bind by auto
    qed
  qed
  then obtain vs where vs: "bind_params (map snd uf) = Inr vs"
    using bind_params_succeeds by blast
  note z = bind_params_zip [OF vs]
  have acc: "\<forall>a \<in> set (zip (map fst uf) vs). accepted a"
  proof
    fix a assume a: "a \<in> set (zip (map fst uf) vs)"
    obtain c v where cv: "a = (c, v)" by (cases a)
    obtain p where p: "(c, p) \<in> set uf" "bind_param p = Inr v" using z a cv by blast
    note m = update_request_members [OF u p(1)]
    show "accepted a"
    proof (cases c)
      case Title then show ?thesis using m p(2) cv by (auto split: if_splits)
    next
      case Director then show ?thesis using m p(2) cv by (auto split: if_splits)
    next
      case Genre then show ?thesis using m p(2) cv by (auto split: if_splits)
    next
      case Year then show ?thesis using m p(2) cv by (auto split: if_splits)
    next
      case Rating
      then obtain r0 where "in_range r0" "p = PFloat r0" using m by auto
      then show ?thesis using in_range_bind [of r0] p(2) cv Rating by auto
    qed
  qed
  obtain ms' where "update_rows R (zip (map fst uf) vs) (SInt (movie_id first)) (movies d) = Inr ms'"
    using update_rows_succeeds [OF acc] by blast
  then have "execute_update R d uf (PInt (movie_id first)) = Inr (d\<lparr>movies := ms'\<rparr>)"
    using vs k by (simp add: execute_update_def)
  then show ?thesis using s u ne by (simp add: modify_movie_def)
qed

text \<open>
  Claim C10. Ids being unique, when the title filter matches the records
  \<open>first # others\<close>, an update leaves every record of the table other than \<open>first\<close>
  as it was; in particular every other matching record is still there unchanged. When
  the update is carried out, the record in the place of \<open>first\<close> has the id of
  \<open>first\<close>, in each column for which a new value was entered that value (the text
  as entered and stripped, the integer that \<open>int\<close> read, the float that \<open>float\<close>
  read), and in each other column the value \<open>first\<close> had. And the update is carried
  out whenever some new value is entered, the new texts can be encoded, the new year is
  a 64-bit integer and the new rating is a float between 1 and 10.
\<close>

theorem C10_update_first_match_only:
  assumes "distinct (map movie_id (movies d))"
    and "search_movies d (strip title_in) = first # others"
    and "modify_movie R d title_in new_title_in new_director_in new_genre_in new_year_in
           new_rating_in = (d', msg)"
  shows "length (movies d') = length (movies d)
       \<and> (\<forall>i < length (movies d). movies d ! i \<noteq> first \<longrightarrow> movies d' ! i = movies d ! i)
       \<and> (\<forall>m \<in> set others. m \<noteq> first \<and> m \<in> set (movies d'))
       \<and> (msg = MsgModified \<longrightarrow>
            (\<exists>i < length (movies d). movies d ! i = first
               \<and> movie_id (movies d' ! i) = movie_id first
               \<and> title (movies d' ! i) =
                   (if strip new_title_in = [] then title first else strip new_title_in)
               \<and> director (movies d' ! i) =
                   (if strip new_director_in = [] then director first else strip new_director_in)
               \<and> genre (movies d' ! i) =
                   (if strip new_genre_in = [] then genre first else strip new_genre_in)
               \<and> year (movies d' ! i) =
                   (if strip new_year_in = [] then year first
                    else case py_int R (strip new_year_in) of
                           Some y \<Rightarrow> SInt y | None \<Rightarrow> year first)
               \<and> rating (movies d' ! i) =
                   (if strip new_rating_in = [] then rating first
                    else case py_float R (strip new_rating_in) of
                           Some r \<Rightarrow> SReal r | None \<Rightarrow> rating first)))
       \<and> ((strip new_title_in \<noteq> [] \<or> strip new_director_in \<noteq> [] \<or> strip new_genre_in \<noteq> []
             \<or> strip new_year_in \<noteq> [] \<or> strip new_rating_in \<noteq> [])
            \<and> encodable (strip new_title_in) \<and> encodable (strip new_director_in)
            \<and> encodable (strip new_genre_in)
            \<and> (strip new_year_in = [] \<or> (\<exists>y. py_int R (strip new_year_in) = Some y \<and> int64 y))
            \<and> (strip new_rating_in = []
                 \<or> (\<exists>r. py_float R (strip new_rating_in) = Some r \<and> in_range r))
            \<and> int64 (movie_id first)
          \<longrightarrow> msg = MsgModified)"
proof -
  have fin: "first \<in> set (movies d)"
    using search_movies_subset [of d "strip title_in"] assms(2) by auto
  have oin: "set others \<subseteq> set (movies d)"
    using search_movies_subset [of d "strip title_in"] assms(2) by auto
  have hd: "hd (search_movies d (strip title_in)) = first" using assms(2) by simp
  note rows = modify_movie_rows [OF assms(3), unfolded hd list_all2_conv_all_nth]
  have len: "length (movies d') = length (movies d)" using rows by simp
  have keep: "\<forall>i < length (movies d). movies d ! i \<noteq> first \<longrightarrow> movies d' ! i = movies d ! i"
  proof (intro allI impI)
    fix i assume i: "i < length (movies d)" and ne: "movies d ! i \<noteq> first"
    have "movies d ! i \<in> set (movies d)" using i by simp
    then have "movie_id (movies d ! i) \<noteq> movie_id first"
      using same_id_same_row [OF assms(1) _ fin] ne by blast
    then show "movies d' ! i = movies d ! i" using rows i by blast
  qed
  have oth: "\<forall>m \<in> set others. m \<noteq> first \<and> m \<in> set (movies d')"
  proof
    fix m assume m: "m \<in> set others"
    have "distinct (map movie_id (first # others))"
      using search_movies_distinct [OF assms(1), of "strip title_in"] assms(2) by simp
    then have ne: "m \<noteq> first" using m by auto
    have "m \<in> set (movies d)" using m oin by blast
    then obtain i where i: "i < length (movies d)" "movies d ! i = m"
      by (auto simp add: in_set_conv_nth)
    then have "movies d' ! i = m" using keep ne by auto
    then have "m \<in> set (movies d')" using i(1) len by (metis nth_mem)
    then show "m \<noteq> first \<and> m \<in> set (movies d')" using ne by simp
  qed
  have app: "msg = MsgModified \<longrightarrow>
            (\<exists>i < length (movies d). movies d ! i = first
               \<and> movie_id (movies d' ! i) = movie_id first
               \<and> title (movies d' ! i) =
                   (if strip new_title_in = [] then title first else strip new_title_in)
               \<and> director (movies d' ! i) =
                   (if strip new_director_in = [] then director first else strip new_director_in)
               \<and> genre (movies d' ! i) =
                   (if strip new_genre_in = [] then genre first else strip new_genre_in)
               \<and> year (movies d' ! i) =
                   (if strip new_year_in = [] then year first
                    else case py_int R (strip new_year_in) of
                           Some y \<Rightarrow> SInt y | None \<Rightarrow> year first)
               \<and> rating (movies d' ! i) =
                   (if strip new_rating_in = [] then rating first
                    else case py_float R (strip new_rating_in) of
                           Some r \<Rightarrow> SReal r | None \<Rightarrow> rating first))"
  proof
    assume mm: "msg = MsgModified"
    with modify_movie_effect [OF assms(3)] obtain target rest uf vs ms' where
      e: "search_movies d (strip title_in) = target # rest"
         "update_request R (strip new_title_in) (strip new_director_in)
            (strip new_genre_in) (strip new_year_in) (strip new_rating_in) = Inr uf"
         "bind_params (map snd uf) = Inr vs"
         "update_rows R (zip (map fst uf) vs) (SInt (movie_id target)) (movies d) = Inr ms'"
         "d' = d\<lparr>movies := ms'\<rparr>"
      by blast
    have t: "target = first" using e(1) assms(2) by simp
    obtain i where i: "i < length (movies d)" "movies d ! i = first"
      using fin by (auto simp add: in_set_conv_nth)
    have "assign_all R (zip (map fst uf) vs) (movies d ! i) = Inr (ms' ! i)"
      using update_rows_frame [OF e(4)] i t by (auto simp add: list_all2_conv_all_nth)
    then have a: "assign_all R (zip (map fst uf) vs) first = Inr (movies d' ! i)"
      using i(2) e(5) by simp
    note f = modified_fields [OF e(2,3) a]
    show "\<exists>i < length (movies d). movies d ! i = first
               \<and> movie_id (movies d' ! i) = movie_id first
               \<and> title (movies d' ! i) =
                   (if strip new_title_in = [] then title first else strip new_title_in)
               \<and> director (movies d' ! i) =
                   (if strip new_director_in = [] then director first else strip new_director_in)
               \<and> genre (movies d' ! i) =
                   (if strip new_genre_in = [] then genre first else strip new_genre_in)
               \<and> year (movies d' ! i) =
                   (if strip new_year_in = [] then year first
                    else case py_int R (strip new_year_in) of
                           Some y \<Rightarrow> SInt y | None \<Rightarrow> year first)
               \<and> rating (movies d' ! i) =
                   (if strip new_rating_in = [] then rating first
                    else case py_float R (strip new_rating_in) of
                           Some r \<Rightarrow> SReal r | None \<Rightarrow> rating first)"
      using i f by blast
  qed
  have suc: "(strip new_title_in \<noteq> [] \<or> strip new_director_in \<noteq> [] \<or> strip new_genre_in \<noteq> []
             \<or> strip new_year_in \<noteq> [] \<or> strip new_rating_in \<noteq> [])
            \<and> encodable (strip new_title_in) \<and> encodable (strip new_director_in)
            \<and> encodable (strip new_genre_in)
            \<and> (strip new_year_in = [] \<or> (\<exists>y. py_int R (strip new_year_in) = Some y \<and> int64 y))
            \<and> (strip new_rating_in = []
                 \<or> (\<exists>r. py_float R (strip new_rating_in) = Some r \<and> in_range r))
            \<and> int64 (movie_id first)
          \<longrightarrow> msg = MsgModified"
  proof
    assume h: "(strip new_title_in \<noteq> [] \<or> strip new_director_in \<noteq> [] \<or> strip new_genre_in \<noteq> []
             \<or> strip new_year_in \<noteq> [] \<or> strip new_rating_in \<noteq> [])
            \<and> encodable (strip new_title_in) \<and> encodable (strip new_director_in)
            \<and> encodable (strip new_genre_in)
            \<and> (strip new_year_in = [] \<or> (\<exists>y. py_int R (strip new_year_in) = Some y \<and> int64 y))
            \<and> (strip new_rating_in = []
                 \<or> (\<exists>r. py_float R (strip new_rating_in) = Some r \<and> in_range r))
            \<and> int64 (movie_id first)"
    have "snd (modify_movie R d title_in new_title_in new_director_in new_genre_in new_year_in
                 new_rating_in) = MsgModified"
      by (rule modify_movie_succeeds [OF assms(2)]) (use h in blast)+
    then show "msg = MsgModified" using assms(3) by simp
  qed
  show ?thesis using len keep oth app suc by blast
qed


lemma sample_strip2:
  "strip (u ''Origin'') = u ''Origin''" "strip (u ''2011'') = u ''2011''"
  by (simp_all add: strip_def u_def isspace_def)

lemma search_nolan: "search_movies nolan_db (u ''In'') = inception # [interstellar]"
  by (simp add: search_movies_def nolan_db_def inception_def interstellar_def u_def
      encodable_def scalar_value_def utf8_length_def SQLITE_MAX_LIKE_PATTERN_LENGTH_def
      sql_like_def sql_text_def utf8_read_def c_str_def ascii_lower_def)

lemma modify_nolan:
  "modify_movie sample_runtime nolan_db (u ''In'') (u ''Origin'') [] [] (u ''2011'') (u ''9.0'')
     = (\<lparr>movies = [inception\<lparr>title := u ''Origin'', year := SInt 2011, rating := SReal (Fin 9)\<rparr>,
                    interstellar],
         sqlite_sequence = 2\<rparr>, MsgModified)"
  unfolding modify_movie_def search_nolan sample_strip sample_strip2
  by (simp add: nolan_db_def inception_def interstellar_def
        update_request_def year_field_def rating_field_def
        text_field_def sample_runtime_def sample_float_def sample_int_def in_range_def
        execute_update_def int64_def store_rating_def store_year_def u_def encodable_def
        scalar_value_def)

theorem C10_update_first_match_only_witness:
  "distinct (map movie_id (movies nolan_db))
   \<and> search_movies nolan_db (strip (u ''In'')) = inception # [interstellar]
   \<and> strip (u ''Origin'') \<noteq> [] \<and> encodable (strip (u ''Origin'')) \<and> strip [] = []
   \<and> encodable []
   \<and> py_int sample_runtime (strip (u ''2011'')) = Some 2011 \<and> int64 2011
   \<and> py_float sample_runtime (strip (u ''9.0'')) = Some (Fin 9) \<and> in_range (Fin 9)
   \<and> int64 (movie_id inception)
   \<and> modify_movie sample_runtime nolan_db (u ''In'') (u ''Origin'') [] [] (u ''2011'') (u ''9.0'')
     = (\<lparr>movies = [inception\<lparr>title := u ''Origin'', year := SInt 2011, rating := SReal (Fin 9)\<rparr>,
                    interstellar],
         sqlite_sequence = 2\<rparr>, MsgModified)
   \<and> interstellar \<in> set [inception\<lparr>title := u ''Origin'', year := SInt 2011,
                                     rating := SReal (Fin 9)\<rparr>, interstellar]
   \<and> interstellar \<noteq> inception
   \<and> title inception \<noteq> u ''Origin'' \<and> year inception \<noteq> SInt 2011
   \<and> rating inception \<noteq> SReal (Fin 9)"
proof -
  have dd: "distinct (map movie_id (movies nolan_db))"
    by (simp add: nolan_db_def inception_def interstellar_def)
  have sn: "search_movies nolan_db (strip (u ''In'')) = inception # [interstellar]"
    by (simp only: sample_strip search_nolan)
  have h: "strip (u ''Origin'') \<noteq> []" "encodable (strip (u ''Origin''))" "strip [] = []"
    "encodable []"
    "py_int sample_runtime (strip (u ''2011'')) = Some 2011" "int64 2011"
    "py_float sample_runtime (strip (u ''9.0'')) = Some (Fin 9)" "in_range (Fin 9)"
    "int64 (movie_id inception)"
    unfolding sample_strip sample_strip2
    by (simp_all add: u_def encodable_def scalar_value_def sample_runtime_def sample_int_def
        sample_float_def int64_def in_range_def inception_def)
  note t = C10_update_first_match_only [OF dd sn modify_nolan]
  have o: "\<forall>m \<in> set [interstellar]. m \<noteq> inception
          \<and> m \<in> set (movies \<lparr>movies = [inception\<lparr>title := u ''Origin'', year := SInt 2011,
                                                   rating := SReal (Fin 9)\<rparr>, interstellar],
                               sqlite_sequence = 2\<rparr>)"
    using t by blast
  have n: "title inception \<noteq> u ''Origin''" "year inception \<noteq> SInt 2011"
    "rating inception \<noteq> SReal (Fin 9)"
    by (simp_all add: inception_def u_def float_8_8_def)
  show ?thesis using dd sn h modify_nolan o n by simp
qed


lemma executemany_delete_ids:
  assumes "\<forall>i \<in> set ids. int64 i"
  shows "executemany_delete d (map PInt ids)
         = Inr (d\<lparr>movies := filter (\<lambda>m. movie_id m \<notin> set ids) (movies d)\<rparr>)"
  using assms
proof (induction ids arbitrary: d)
  case Nil
  then show ?case by simp
next
  case (Cons i ids)
  have "executemany_delete d (map PInt (i # ids))
        = executemany_delete (d\<lparr>movies := filter (\<lambda>m. movie_id m \<noteq> i) (movies d)\<rparr>) (map PInt ids)"
    using Cons.prems by simp
  also have "\<dots> = Inr (d\<lparr>movies := filter (\<lambda>m. movie_id m \<notin> set ids)
                                   (filter (\<lambda>m. movie_id m \<noteq> i) (movies d))\<rparr>)"
    using Cons.IH [of "d\<lparr>movies := filter (\<lambda>m. movie_id m \<noteq> i) (movies d)\<rparr>"] Cons.prems
    by simp
  also have "filter (\<lambda>m. movie_id m \<notin> set ids) (filter (\<lambda>m. movie_id m \<noteq> i) (movies d))
           = filter (\<lambda>m. movie_id m \<notin> set (i # ids)) (movies d)"
    by (auto intro: filter_cong)
  finally show ?case .
qed

text \<open>
  Claim C5. Deleting by a list of ids removes exactly the records whose id is in the list
  and keeps every other record as it is. \<open>delete_movies\<close> with a title filter
  deletes by the ids of the records the filter found; with the answer "all", confirmed,
  it leaves the table empty.
\<close>

theorem C5_delete:
  "((\<forall>i \<in> set ids. int64 i) \<longrightarrow>
      executemany_delete d (map PInt ids)
        = Inr (d\<lparr>movies := filter (\<lambda>m. movie_id m \<notin> set ids) (movies d)\<rparr>))
   \<and> (lower_is_y all_delete_in \<and> lower_is_y confirm_in \<longrightarrow>
        delete_movies d all_delete_in title_in confirm_in = (d\<lparr>movies := []\<rparr>, MsgAllDeleted))
   \<and> (\<not> lower_is_y all_delete_in \<and> lower_is_y confirm_in
        \<and> search_movies d (strip title_in) \<noteq> []
        \<and> (\<forall>m \<in> set (movies d). int64 (movie_id m)) \<longrightarrow>
        delete_movies d all_delete_in title_in confirm_in
          = (d\<lparr>movies := filter (\<lambda>m. movie_id m \<notin> movie_id ` set (search_movies d (strip title_in)))
                            (movies d)\<rparr>, MsgDeleted))"
proof (intro conjI impI)
  assume "\<forall>i \<in> set ids. int64 i"
  then show "executemany_delete d (map PInt ids)
        = Inr (d\<lparr>movies := filter (\<lambda>m. movie_id m \<notin> set ids) (movies d)\<rparr>)"
    by (rule executemany_delete_ids)
next
  assume "lower_is_y all_delete_in \<and> lower_is_y confirm_in"
  then show "delete_movies d all_delete_in title_in confirm_in = (d\<lparr>movies := []\<rparr>, MsgAllDeleted)"
    by (simp add: delete_movies_def)
next
  assume h: "\<not> lower_is_y all_delete_in \<and> lower_is_y confirm_in
        \<and> search_movies d (strip title_in) \<noteq> []
        \<and> (\<forall>m \<in> set (movies d). int64 (movie_id m))"
  have "\<forall>i \<in> set (map movie_id (search_movies d (strip title_in))). int64 i"
    using h search_movies_subset [of d "strip title_in"] by auto
  from executemany_delete_ids [OF this, of d]
  have "executemany_delete d (map (\<lambda>m. PInt (movie_id m)) (search_movies d (strip title_in)))
        = Inr (d\<lparr>movies := filter (\<lambda>m. movie_id m \<notin> movie_id ` set (search_movies d (strip title_in)))
                            (movies d)\<rparr>)"
    by (simp add: comp_def)
  then show "delete_movies d all_delete_in title_in confirm_in
          = (d\<lparr>movies := filter (\<lambda>m. movie_id m \<notin> movie_id ` set (search_movies d (strip title_in)))
                            (movies d)\<rparr>, MsgDeleted)"
    using h by (simp add: delete_movies_def Let_def)
qed

theorem C5_delete_witness:
  "int64 1
   \<and> executemany_delete nolan_db (map PInt [1]) = Inr (nolan_db\<lparr>movies := [interstellar]\<rparr>)
   \<and> lower_is_y (u ''y'') \<and> lower_is_y (u ''Y'') \<and> \<not> lower_is_y (u ''n'')
   \<and> search_movies nolan_db (strip (u ''Incep'')) \<noteq> []
   \<and> list_all (\<lambda>m. int64 (movie_id m)) (movies nolan_db)
   \<and> delete_movies nolan_db (u ''y'') [] (u ''Y'') = (nolan_db\<lparr>movies := []\<rparr>, MsgAllDeleted)
   \<and> delete_movies nolan_db (u ''n'') (u ''Incep'') (u ''y'')
       = (nolan_db\<lparr>movies := [interstellar]\<rparr>, MsgDeleted)"
proof -
  have i: "\<forall>i \<in> set [1]. int64 i" by (simp add: int64_def)
  have y: "lower_is_y (u ''y'')" "lower_is_y (u ''Y'')" "\<not> lower_is_y (u ''n'')"
    by (simp_all add: lower_is_y_def u_def)
  have s: "search_movies nolan_db (strip (u ''Incep'')) = [inception]"
    unfolding sample_strip
    by (simp add: search_movies_def nolan_db_def inception_def interstellar_def u_def
        encodable_def scalar_value_def utf8_length_def SQLITE_MAX_LIKE_PATTERN_LENGTH_def
        sql_like_def sql_text_def utf8_read_def c_str_def ascii_lower_def)
  have m: "\<forall>m \<in> set (movies nolan_db). int64 (movie_id m)"
    by (simp add: nolan_db_def inception_def interstellar_def int64_def)
  have f: "filter (\<lambda>m. movie_id m \<notin> set [1]) (movies nolan_db) = [interstellar]"
    "filter (\<lambda>m. movie_id m \<notin> movie_id ` set [inception]) (movies nolan_db) = [interstellar]"
    by (simp_all add: nolan_db_def inception_def interstellar_def)
  have a: "executemany_delete nolan_db (map PInt [1]) = Inr (nolan_db\<lparr>movies := [interstellar]\<rparr>)"
    using C5_delete [of "[1]" nolan_db "[]" "[]" "[]"] i f(1) by simp
  have b: "delete_movies nolan_db (u ''y'') [] (u ''Y'') = (nolan_db\<lparr>movies := []\<rparr>, MsgAllDeleted)"
    using C5_delete [of "[]" nolan_db "u ''y''" "u ''Y''" "[]"] y by blast
  have c: "delete_movies nolan_db (u ''n'') (u ''Incep'') (u ''y'')
       = (nolan_db\<lparr>movies := [interstellar]\<rparr>, MsgDeleted)"
    using C5_delete [of "[]" nolan_db "u ''n''" "u ''y''" "u ''Incep''"] y s m f(2) by simp
  have i1: "int64 1" by (simp add: int64_def)
  have m1: "list_all (\<lambda>m. int64 (movie_id m)) (movies nolan_db)"
    using m by (simp add: list_all_iff)
  show ?thesis using i1 a y s m1 b c by simp
qed

section \<open>Round trip through a file\<close>










lemma fold_max_ge: "a \<le> fold max xs (a::int)"
proof (induction xs arbitrary: a)
  case Nil
  show ?case by simp
next
  case (Cons x xs)
  have "a \<le> max x a" by simp
  also have "\<dots> \<le> fold max xs (max x a)" by (rule Cons.IH)
  finally show ?case by simp
qed

lemma fold_max_mem: "x \<in> set xs \<Longrightarrow> x \<le> fold max xs (a::int)"
proof (induction xs arbitrary: a)
  case Nil
  then show ?case by simp
next
  case (Cons y xs)
  show ?case
  proof (cases "x = y")
    case True
    have "x \<le> max y a" using True by simp
    also have "\<dots> \<le> fold max xs (max y a)" by (rule fold_max_ge)
    finally show ?thesis by simp
  next
    case False
    then have "x \<in> set xs" using Cons.prems by simp
    then show ?thesis using Cons.IH by simp
  qed
qed




lemma radix64_two: "(n::nat) div 64 * 4096 + n mod 64 * 64 = 64 * n"
proof -
  have "64 * n = 64 * (n div 64 * 64 + n mod 64)" by simp
  also have "\<dots> = n div 64 * 4096 + n mod 64 * 64" by (simp only: distrib_left)
  finally show ?thesis by simp
qed

lemma radix64_three: "(c::nat) div 4096 * 4096 + c div 64 mod 64 * 64 + c mod 64 = c"
proof -
  have a: "c div 4096 = c div 64 div 64" by (simp add: div_mult2_eq)
  have "c div 4096 * 4096 + c div 64 mod 64 * 64 = 64 * (c div 64)"
    unfolding a by (rule radix64_two)
  then show ?thesis by simp
qed

lemma radix64_four:
  "(c::nat) div 262144 * 262144 + c div 4096 mod 64 * 4096 + c div 64 mod 64 * 64 + c mod 64 = c"
proof -
  have a: "c div 262144 = c div 4096 div 64" by (simp add: div_mult2_eq)
  have "64 * (c div 4096 div 64 * 4096 + c div 4096 mod 64 * 64) = 64 * (64 * (c div 4096))"
    by (simp only: radix64_two)
  then have "c div 262144 * 262144 + c div 4096 mod 64 * 4096 = c div 4096 * 4096"
    unfolding a by simp
  then show ?thesis using radix64_three [of c] by simp
qed

lemma utf8_decode_char:
  assumes "scalar_value c"
  shows "utf8_decode (utf8_encode_char c @ bs) = map_option ((#) c) (utf8_decode bs)"
proof -
  have top: "c < 0x110000" using assms by (auto simp add: scalar_value_def)
  consider (a) "c < 0x80" | (b) "0x80 \<le> c" "c < 0x800" | (c) "0x800 \<le> c" "c < 0x10000"
    | (d) "0x10000 \<le> c" "c < 0x110000"
    using top by linarith
  then show ?thesis
  proof cases
    case a
    then show ?thesis by (simp add: utf8_encode_char_def)
  next
    case b
    define b0 where "b0 = 0xC0 + c div 64"
    define b1 where "b1 = 0x80 + c mod 64"
    have e: "utf8_encode_char c = [b0, b1]"
      using b by (simp add: utf8_encode_char_def b0_def b1_def)
    have 1: "0xC2 \<le> b0" "b0 < 0xE0" "\<not> b0 < 0x80"
      using b unfolding b0_def by simp_all
    have 2: "continuation b1" unfolding b1_def continuation_def by simp
    have 3: "(b0 - 0xC0) * 64 + (b1 - 0x80) = c"
      unfolding b0_def b1_def by simp
    show ?thesis
      unfolding e using 1 2 3 by simp
  next
    case c
    define b0 where "b0 = 0xE0 + c div 4096"
    define b1 where "b1 = 0x80 + c div 64 mod 64"
    define b2 where "b2 = 0x80 + c mod 64"
    have e: "utf8_encode_char c = [b0, b1, b2]"
      using c by (simp add: utf8_encode_char_def b0_def b1_def b2_def)
    have 1: "0xE0 \<le> b0" "b0 < 0xF0" "\<not> b0 < 0x80" "\<not> (0xC2 \<le> b0 \<and> b0 < 0xE0)"
      using c unfolding b0_def by simp_all
    have 2: "continuation b1" "continuation b2"
      unfolding b1_def b2_def continuation_def by simp_all
    have "c div 4096 * 4096 + c div 64 mod 64 * 64 + c mod 64 = c" by (rule radix64_three)
    then have 3: "(b0 - 0xE0) * 4096 + (b1 - 0x80) * 64 + (b2 - 0x80) = c"
      unfolding b0_def b1_def b2_def by simp
    show ?thesis
      unfolding e using 1 2 3 c(1) assms by (simp add: Let_def)
  next
    case d
    define b0 where "b0 = 0xF0 + c div 262144"
    define b1 where "b1 = 0x80 + c div 4096 mod 64"
    define b2 where "b2 = 0x80 + c div 64 mod 64"
    define b3 where "b3 = 0x80 + c mod 64"
    have e: "utf8_encode_char c = [b0, b1, b2, b3]"
      using d by (simp add: utf8_encode_char_def b0_def b1_def b2_def b3_def)
    have 1: "0xF0 \<le> b0" "b0 < 0xF5" "\<not> b0 < 0x80" "\<not> (0xC2 \<le> b0 \<and> b0 < 0xE0)"
      "\<not> (0xE0 \<le> b0 \<and> b0 < 0xF0)"
      using d unfolding b0_def by simp_all
    have 2: "continuation b1" "continuation b2" "continuation b3"
      unfolding b1_def b2_def b3_def continuation_def by simp_all
    have "c div 262144 * 262144 + c div 4096 mod 64 * 4096 + c div 64 mod 64 * 64 + c mod 64 = c"
      by (rule radix64_four)
    then have 3: "(b0 - 0xF0) * 262144 + (b1 - 0x80) * 4096 + (b2 - 0x80) * 64 + (b3 - 0x80) = c"
      unfolding b0_def b1_def b2_def b3_def by simp
    show ?thesis
      unfolding e using 1 2 3 d by (simp add: Let_def)
  qed
qed

lemma utf8_roundtrip: "encodable s \<Longrightarrow> utf8_decode (utf8_encode s) = Some s"
proof (induction s)
  case Nil
  show ?case by (simp add: utf8_encode_def)
next
  case (Cons c s)
  have c: "scalar_value c" and s: "encodable s" using Cons.prems by (simp_all add: encodable_def)
  have "utf8_decode (utf8_encode (c # s)) = utf8_decode (utf8_encode_char c @ utf8_encode s)"
    by (simp add: utf8_encode_def)
  also have "\<dots> = map_option ((#) c) (utf8_decode (utf8_encode s))"
    by (rule utf8_decode_char [OF c])
  also have "\<dots> = Some (c # s)" using Cons.IH [OF s] by simp
  finally show ?case .
qed

lemma utf8_encode_length: "length (utf8_encode s) = utf8_length s"
  by (induction s) (simp_all add: utf8_encode_def utf8_length_def utf8_encode_char_def)





lemma encodable_u: "encodable (u s)"
proof -
  have "\<forall>c \<in> set s. scalar_value (of_char c)"
  proof
    fix c :: char
    have "of_char c < (256::nat)" by simp
    then have "of_char c < (55296::nat)" by linarith
    then show "scalar_value (of_char c)" by (simp add: scalar_value_def)
  qed
  then show ?thesis by (simp add: encodable_def u_def list_all_iff)
qed













lemma read_text_written:
  "encodable text \<Longrightarrow> read_text (utf8_encode text) = Inr (universal_newlines text)"
  by (simp add: read_text_def utf8_roundtrip)





section \<open>The exported file\<close>









lemma universal_newlines_id: "0x0D \<notin> set s \<Longrightarrow> universal_newlines s = s"
  by (induction s rule: universal_newlines.induct) simp_all




text \<open>
  Claim C9 at a failing input: the schema does not declare \<open>rating\<close> NOT NULL, and its
  CHECK constraint is not false for NULL. Importing a document whose one record has
  \<open>"rating": null\<close> into the empty database succeeds and stores a record whose rating
  is NULL.
\<close>

theorem C9_import_stores_null_rating:
  "import_movies null_runtime (no_files(JSON_IN_PATH := File (utf8_encode null_rating_text)))
     empty_db
   = (\<lparr>movies = [\<lparr>movie_id = 1, title = u ''Untitled'', director = u ''Nobody'',
                    genre = u ''Drama'', year = SInt 2000, rating = SNull\<rparr>],
       sqlite_sequence = 1\<rparr>, MsgImported)"
proof -
  have enc: "encodable null_rating_text" by (simp add: null_rating_text_def encodable_u)
  have cr: "0x0D \<notin> set null_rating_text" by (simp add: null_rating_text_def u_def)
  have rd: "read_text (utf8_encode null_rating_text) = Inr null_rating_text"
    using read_text_written [OF enc] universal_newlines_id [OF cr] by simp
  have ld: "json_loads null_runtime null_rating_text = Inr null_rating_doc"
    by (simp add: null_runtime_def)
  have cp: "comprehension [PDict [(u ''title'', PStr (u ''Untitled'')),
                (u ''director'', PStr (u ''Nobody'')), (u ''genre'', PStr (u ''Drama'')),
                (u ''year'', PInt 2000), (u ''rating'', PNone)]]
            = Inr [[PStr (u ''Untitled''), PStr (u ''Nobody''), PStr (u ''Drama''), PInt 2000, PNone]]"
    by (simp add: movie_params_def u_def)
  have bp: "bind_params [PStr (u ''Untitled''), PStr (u ''Nobody''), PStr (u ''Drama''), PInt 2000, PNone]
            = Inr [SText (u ''Untitled''), SText (u ''Nobody''), SText (u ''Drama''), SInt 2000, SNull]"
    by (simp add: encodable_u int64_def)
  have ins: "sql_insert null_runtime empty_db
               [SText (u ''Untitled''), SText (u ''Nobody''), SText (u ''Drama''), SInt 2000, SNull]
             = Inr \<lparr>movies = [\<lparr>movie_id = 1, title = u ''Untitled'', director = u ''Nobody'',
                    genre = u ''Drama'', year = SInt 2000, rating = SNull\<rparr>],
                    sqlite_sequence = 1\<rparr>"
    by (simp add: sql_insert_def store_year_def store_rating_def next_id_def empty_db_def int64_def)
  have "import_text null_runtime empty_db null_rating_text
          = Inr \<lparr>movies = [\<lparr>movie_id = 1, title = u ''Untitled'', director = u ''Nobody'',
                    genre = u ''Drama'', year = SInt 2000, rating = SNull\<rparr>],
                    sqlite_sequence = 1\<rparr>"
    by (simp add: import_text_def ld null_rating_doc_def cp execute_insert_def bp ins
        del: comprehension.simps bind_params.simps)
  then show ?thesis
    by (simp add: import_movies_def no_files_def rd)
qed

section \<open>Reachable states\<close>

lemma bind_param_ok: "bind_param p = Inr v \<Longrightarrow> bound_ok v"
  by (cases p) (auto simp add: int64_def split: if_splits)

lemma bind_params_ok: "bind_params ps = Inr vs \<Longrightarrow> list_all bound_ok vs"
proof (induction ps arbitrary: vs)
  case Nil
  then show ?case by simp
next
  case (Cons p ps)
  from Cons.prems obtain v vs1 where
    s: "bind_param p = Inr v" "bind_params ps = Inr vs1" "vs = v # vs1"
    by (auto split: sum.splits)
  show ?case using bind_param_ok [OF s(1)] Cons.IH [OF s(2)] s(3) by simp
qed

lemma store_text_ok:
  assumes "bound_ok v" "store_text R v = Inr s"
  shows "encodable s"
  using assms by (cases v) (auto simp add: encodable_u)

lemma real_to_integer_ok: "f \<noteq> NaN \<Longrightarrow> year_ok R (real_to_integer f)"
proof (cases f)
  case (Fin q)
  assume "f \<noteq> NaN"
  show ?thesis
  proof (cases "q = of_int \<lfloor>q\<rfloor> \<and> - (2 ^ 63) < \<lfloor>q\<rfloor> \<and> \<lfloor>q\<rfloor> < 2 ^ 63 - 1")
    case True
    then show ?thesis using Fin by (simp add: real_to_integer_def int64_def)
  next
    case False
    then have "real_to_integer f = SReal f" using Fin by (auto simp add: real_to_integer_def)
    then show ?thesis using Fin by simp
  qed
qed (simp_all add: real_to_integer_def)

lemma store_year_ok_result:
  assumes "engine_ok R" "bound_ok v" "store_year R v = Inr y"
  shows "year_ok R y"
proof (cases v)
  case SNull
  then show ?thesis using assms(3) by (simp add: store_year_def)
next
  case (SInt i)
  then show ?thesis using assms(2,3) by (auto simp add: store_year_def)
next
  case (SReal f)
  then have "y = real_to_integer f" "f \<noteq> NaN"
    using assms(2,3) by (auto simp add: store_year_def Let_def split: if_splits)
  then show ?thesis using real_to_integer_ok by simp
next
  case (SText s)
  show ?thesis
  proof (cases "sql_numeric R s")
    case None
    then show ?thesis using SText assms(2,3) by (auto simp add: store_year_def)
  next
    case (Some n)
    have e: "case sql_numeric R s of None \<Rightarrow> True | Some (Inl i) \<Rightarrow> int64 i
                | Some (Inr f) \<Rightarrow> f \<noteq> NaN"
      using assms(1) by (simp add: engine_ok_def)
    show ?thesis
    proof (cases n)
      case (Inl i)
      then show ?thesis using SText Some assms(3) e by (auto simp add: store_year_def)
    next
      case (Inr f)
      then have "y = real_to_integer f" "f \<noteq> NaN"
        using SText Some assms(3) e by (auto simp add: store_year_def Let_def split: if_splits)
      then show ?thesis using real_to_integer_ok by simp
    qed
  qed
qed

lemma check_rating_ok: "check_rating (SReal f) \<Longrightarrow> rating_ok (SReal f)"
  by (simp add: in_range_def)

lemma store_rating_ok_result:
  assumes "store_rating R v = Inr r"
  shows "rating_ok r"
proof -
  have r: "r = real_affinity R v" "check_rating r"
    using assms by (auto simp add: store_rating_def Let_def split: if_splits)
  show ?thesis
  proof (cases r)
    case SNull
    then show ?thesis by simp
  next
    case (SInt i)
    then have False using r(1)
      by (cases v) (auto split: option.splits sum.splits)
    then show ?thesis ..
  next
    case (SReal f)
    then show ?thesis using r(2) check_rating_ok by simp
  next
    case (SText s)
    then show ?thesis using r(2) by simp
  qed
qed

lemma next_id_bounds:
  assumes "wf_db R d"
  shows "1 \<le> next_id d" "\<forall>m \<in> set (movies d). movie_id m < next_id d"
    "sqlite_sequence d < next_id d"
proof -
  have a: "sqlite_sequence d \<le> fold max (map movie_id (movies d)) (sqlite_sequence d)"
    by (rule fold_max_ge)
  show "sqlite_sequence d < next_id d" using a by (simp add: next_id_def)
  then show "1 \<le> next_id d" using assms by (simp add: wf_db_def)
  show "\<forall>m \<in> set (movies d). movie_id m < next_id d"
  proof
    fix m assume "m \<in> set (movies d)"
    then have "movie_id m \<in> set (map movie_id (movies d))" by simp
    then have "movie_id m \<le> fold max (map movie_id (movies d)) (sqlite_sequence d)"
      by (rule fold_max_mem)
    then show "movie_id m < next_id d" by (simp add: next_id_def)
  qed
qed

lemma sql_insert_wf:
  assumes "engine_ok R" "wf_db R d" "list_all bound_ok vs" "sql_insert R d vs = Inr d'"
  shows "wf_db R d'"
proof -
  from assms(4) obtain vt vd vg vy vr t dr g y r where
    v: "vs = [vt, vd, vg, vy, vr]"
    and s: "store_text R vt = Inr t" "store_text R vd = Inr dr" "store_text R vg = Inr g"
       "store_year R vy = Inr y" "store_rating R vr = Inr r"
    and i: "int64 (next_id d)"
    and d': "d' = \<lparr>movies = movies d @
                     [\<lparr>movie_id = next_id d, title = t, director = dr, genre = g,
                       year = y, rating = r\<rparr>],
                   sqlite_sequence = next_id d\<rparr>"
    unfolding sql_insert_def
    by (auto split: list.splits sum.splits if_splits)
  have b: "bound_ok vt" "bound_ok vd" "bound_ok vg" "bound_ok vy" "bound_ok vr"
    using assms(3) v by simp_all
  note n = next_id_bounds [OF assms(2)]
  have row: "wf_row R \<lparr>movie_id = next_id d, title = t, director = dr, genre = g,
                       year = y, rating = r\<rparr>"
    using n(1) i store_text_ok [OF b(1) s(1)] store_text_ok [OF b(2) s(2)]
      store_text_ok [OF b(3) s(3)] store_year_ok_result [OF assms(1) b(4) s(4)]
      store_rating_ok_result [OF s(5)]
    by (simp add: wf_row_def)
  have old: "list_all (wf_row R) (movies d)" "distinct (map movie_id (movies d))"
    using assms(2) by (simp_all add: wf_db_def)
  have fresh: "next_id d \<notin> movie_id ` set (movies d)" using n(2) by auto
  have le: "list_all (\<lambda>m. movie_id m \<le> next_id d) (movies d)"
    using n(2) by (auto simp add: list_all_iff intro: less_imp_le)
  show ?thesis
    unfolding d' wf_db_def using row old fresh le n(1) by simp
qed

lemma execute_insert_wf:
  assumes "engine_ok R" "wf_db R d" "execute_insert R d params = Inr d'"
  shows "wf_db R d'"
proof -
  from assms(3) obtain vs where
    "bind_params params = Inr vs" "sql_insert R d vs = Inr d'"
    by (auto simp add: execute_insert_def split: sum.splits)
  then show ?thesis using sql_insert_wf [OF assms(1,2) bind_params_ok] by blast
qed

lemma executemany_insert_wf:
  assumes "engine_ok R" "wf_db R d" "executemany_insert R d pss = Inr d'"
  shows "wf_db R d'"
  using assms(2,3)
proof (induction pss arbitrary: d)
  case Nil
  then show ?case by simp
next
  case (Cons ps pss)
  from Cons.prems(2) obtain d1 where
    s: "execute_insert R d ps = Inr d1" "executemany_insert R d1 pss = Inr d'"
    by (auto split: sum.splits)
  show ?case using Cons.IH [OF execute_insert_wf [OF assms(1) Cons.prems(1) s(1)] s(2)] .
qed

lemma wf_empty_db: "wf_db R empty_db"
  by (simp add: wf_db_def empty_db_def)

lemma add_movie_wf:
  assumes "engine_ok R" "wf_db R d"
  shows "wf_db R (fst (add_movie R d title_in director_in genre_in year_in rating_in))"
proof -
  have "fst (add_movie R d title_in director_in genre_in year_in rating_in) = d
      \<or> (\<exists>ps. execute_insert R d ps
                 = Inr (fst (add_movie R d title_in director_in genre_in year_in rating_in)))"
    by (auto simp add: add_movie_def split: option.splits sum.splits)
  then show ?thesis using assms execute_insert_wf by metis
qed

lemma import_movies_wf:
  assumes "engine_ok R" "wf_db R d"
  shows "wf_db R (fst (import_movies R files d))"
proof -
  have "fst (import_movies R files d) = d
      \<or> (\<exists>pss. executemany_insert R d pss = Inr (fst (import_movies R files d)))"
    by (auto simp add: import_movies_def import_text_def split: node.splits sum.splits)
  then show ?thesis using assms executemany_insert_wf by metis
qed

lemma assign_wf:
  assumes "engine_ok R" "wf_row R m" "bound_ok v" "assign R (c, v) m = Inr m'"
  shows "wf_row R m'"
proof (cases c)
  case Title
  then obtain s where "store_text R v = Inr s" "m' = m\<lparr>title := s\<rparr>"
    using assms(4) by (auto split: sum.splits)
  then show ?thesis using assms(2) store_text_ok [OF assms(3)] by (simp add: wf_row_def)
next
  case Director
  then obtain s where "store_text R v = Inr s" "m' = m\<lparr>director := s\<rparr>"
    using assms(4) by (auto split: sum.splits)
  then show ?thesis using assms(2) store_text_ok [OF assms(3)] by (simp add: wf_row_def)
next
  case Genre
  then obtain s where "store_text R v = Inr s" "m' = m\<lparr>genre := s\<rparr>"
    using assms(4) by (auto split: sum.splits)
  then show ?thesis using assms(2) store_text_ok [OF assms(3)] by (simp add: wf_row_def)
next
  case Year
  then obtain y where "store_year R v = Inr y" "m' = m\<lparr>year := y\<rparr>"
    using assms(4) by (auto split: sum.splits)
  then show ?thesis
    using assms(2) store_year_ok_result [OF assms(1,3)] by (simp add: wf_row_def)
next
  case Rating
  then obtain r where "store_rating R v = Inr r" "m' = m\<lparr>rating := r\<rparr>"
    using assms(4) by (auto split: sum.splits)
  then show ?thesis using assms(2) store_rating_ok_result by (simp add: wf_row_def)
qed

lemma assign_all_wf:
  assumes "engine_ok R" "wf_row R m" "list_all (\<lambda>a. bound_ok (snd a)) sets"
    and "assign_all R sets m = Inr m'"
  shows "wf_row R m'"
  using assms(2,3,4)
proof (induction sets arbitrary: m)
  case Nil
  then show ?case by simp
next
  case (Cons a sets)
  obtain c v where a: "a = (c, v)" by (cases a)
  from Cons.prems(3) obtain m1 where
    s: "assign R (c, v) m = Inr m1" "assign_all R sets m1 = Inr m'"
    by (auto simp add: a split: sum.splits)
  have "wf_row R m1" using assign_wf [OF assms(1) Cons.prems(1) _ s(1)] Cons.prems(2) a by simp
  then show ?case using Cons.IH [OF _ _ s(2)] Cons.prems(2) by simp
qed

lemma update_rows_wf:
  assumes "engine_ok R" "list_all (wf_row R) ms" "list_all (\<lambda>a. bound_ok (snd a)) sets"
    and "update_rows R sets k ms = Inr ms'"
  shows "list_all (wf_row R) ms' \<and> map movie_id ms' = map movie_id ms"
proof -
  note f = update_rows_frame [OF assms(4), unfolded list_all2_conv_all_nth]
  have len: "length ms' = length ms" using f by simp
  have each: "\<forall>i < length ms. wf_row R (ms' ! i) \<and> movie_id (ms' ! i) = movie_id (ms ! i)"
  proof (intro allI impI)
    fix i assume i: "i < length ms"
    have w: "wf_row R (ms ! i)" using assms(2) i by (simp add: list_all_length)
    show "wf_row R (ms' ! i) \<and> movie_id (ms' ! i) = movie_id (ms ! i)"
    proof (cases "SInt (movie_id (ms ! i)) = k")
      case True
      then have a: "assign_all R sets (ms ! i) = Inr (ms' ! i)" using f i by simp
      show ?thesis
        using assign_all_wf [OF assms(1) w assms(3) a] assign_all_frame [OF a] by simp
    next
      case False
      then have "ms' ! i = ms ! i" using f i by simp
      then show ?thesis using w by simp
    qed
  qed
  have "list_all (wf_row R) ms'" using each len by (simp add: list_all_length)
  moreover have "map movie_id ms' = map movie_id ms"
    using each len by (simp add: list_eq_iff_nth_eq)
  ultimately show ?thesis by simp
qed

lemma execute_update_wf:
  assumes "engine_ok R" "wf_db R d" "execute_update R d uf key = Inr d'"
  shows "wf_db R d'"
proof -
  from assms(3) obtain vs k ms' where
    s: "bind_params (map snd uf) = Inr vs"
       "update_rows R (zip (map fst uf) vs) k (movies d) = Inr ms'" "d' = d\<lparr>movies := ms'\<rparr>"
    by (auto simp add: execute_update_def split: sum.splits)
  have "list_all bound_ok vs" using bind_params_ok [OF s(1)] .
  then have b: "list_all (\<lambda>a. bound_ok (snd a)) (zip (map fst uf) vs)"
    by (auto simp add: list_all_iff dest: set_zip_rightD)
  have w: "list_all (wf_row R) (movies d)" using assms(2) by (simp add: wf_db_def)
  note r = update_rows_wf [OF assms(1) w b s(2)]
  have "list_all (\<lambda>m. movie_id m \<le> sqlite_sequence d) ms'"
  proof -
    have "list_all (\<lambda>i. i \<le> sqlite_sequence d) (map movie_id (movies d))"
      using assms(2) by (simp add: wf_db_def list_all_iff)
    then have "list_all (\<lambda>i. i \<le> sqlite_sequence d) (map movie_id ms')" using r by simp
    then show ?thesis by (simp add: list_all_iff)
  qed
  then show ?thesis
    using assms(2) r by (simp add: wf_db_def s(3))
qed

lemma modify_movie_wf:
  assumes "engine_ok R" "wf_db R d"
  shows "wf_db R (fst (modify_movie R d title_in new_title_in new_director_in new_genre_in
                         new_year_in new_rating_in))"
proof -
  let ?d' = "fst (modify_movie R d title_in new_title_in new_director_in new_genre_in
                    new_year_in new_rating_in)"
  have "?d' = d \<or> (\<exists>uf key. execute_update R d uf key = Inr ?d')"
    by (auto simp add: modify_movie_def split: list.splits sum.splits)
  then show ?thesis using assms execute_update_wf by metis
qed

lemma filter_wf:
  assumes "wf_db R d"
  shows "wf_db R (d\<lparr>movies := filter P (movies d)\<rparr>)"
  using assms by (auto simp add: wf_db_def list_all_iff distinct_map_filter)

lemma executemany_delete_wf:
  assumes "wf_db R d" "executemany_delete d keys = Inr d'"
  shows "wf_db R d'"
  using assms
proof (induction keys arbitrary: d)
  case Nil
  then show ?case by simp
next
  case (Cons key keys)
  from Cons.prems(2) obtain k where
    s: "executemany_delete (d\<lparr>movies := filter (\<lambda>m. SInt (movie_id m) \<noteq> k) (movies d)\<rparr>) keys
          = Inr d'"
    by (auto split: sum.splits)
  show ?case using Cons.IH [OF filter_wf [OF Cons.prems(1)] s] .
qed

lemma delete_movies_wf:
  assumes "wf_db R d"
  shows "wf_db R (fst (delete_movies d all_delete_in title_in confirm_in))"
proof -
  let ?d' = "fst (delete_movies d all_delete_in title_in confirm_in)"
  have "?d' = d \<or> ?d' = d\<lparr>movies := filter (\<lambda>m. False) (movies d)\<rparr>
      \<or> (\<exists>keys. executemany_delete d keys = Inr ?d')"
    by (auto simp add: delete_movies_def Let_def split: sum.splits)
  then show ?thesis using assms filter_wf executemany_delete_wf by metis
qed

text \<open>Every database the program can have reached is well-formed.\<close>

lemma reachable_wf:
  assumes "engine_ok R" "reachable R d"
  shows "wf_db R d"
  using assms(2)
proof (induction rule: reachable.induct)
  case start
  show ?case by (rule wf_empty_db)
next
  case (added d title_in director_in genre_in year_in rating_in)
  then show ?case using add_movie_wf [OF assms(1)] by simp
next
  case (modified d title_in new_title_in new_director_in new_genre_in new_year_in new_rating_in)
  then show ?case using modify_movie_wf [OF assms(1)] by simp
next
  case (deleted d all_delete_in title_in confirm_in)
  then show ?case using delete_movies_wf by simp
next
  case (imported d files)
  then show ?case using import_movies_wf [OF assms(1)] by simp
qed

end
